theory Spec2Isabelle
  imports Complex_Main "HOL-Library.AList" "HOL-Library.Word" "HOL-Library.Log_Nat"
begin

section \<open>Python values, dictionaries and errors\<close>

text \<open>
  A Python float is a binary64 number: a finite value, which is a rational number, an
  infinity or NaN. The sign of zero is not recorded; no operation below tells the two
  zeros apart.
\<close>

datatype pyfloat = Fin rat | PInf | NInf | NaN

text \<open>
  The plugin keeps every image in a Python dictionary whose values are strings (the
  stitching fields), integers (line index, width, height, scaled levels) and floats (the
  feature means); a parsed CSV row additionally holds lists of floats. A dictionary is an
  association list: it keeps the insertion order that \<open>items()\<close> and iteration
  follow, and \<open>AList.update\<close> overwrites a present key in place and appends a new
  one, as a Python assignment \<open>d[k] = v\<close> does.
\<close>

datatype pyval = PStr string | PInt int | PFloat pyfloat | PList "pyfloat list"

type_synonym pydict = "(string \<times> pyval) list"

datatype error =
  KeyError | TypeError | ValueError | AttributeError | NameError | StatisticsError
  | ZeroDivisionError | OverflowError

section \<open>Float arithmetic\<close>

text \<open>
  The nearest integer, a tie going to the even one: \<open>round(x)\<close> of a finite float, and
  the rounding of a significand.
\<close>

definition py_round :: "rat \<Rightarrow> int" where
  "py_round x =
     (let f = \<lfloor>x\<rfloor>; d = x - of_int f
      in if d < 1 / 2 then f
         else if 1 / 2 < d then f + 1
         else if even f then f else f + 1)"

text \<open>
  The binary exponent of a positive rational: \<open>2 ^ flog2 a \<le> a < 2 ^ (flog2 a + 1)\<close>.
\<close>

definition flog2 :: "rat \<Rightarrow> int" where
  "flog2 a =
     (let (p, q) = quotient_of a; d = bitlen p - bitlen q
      in if 2 powi d \<le> a then d else d - 1)"

text \<open>
  Rounding of a real result to the nearest binary64 number, ties to even: the significand
  has 53 bits, the unit in the last place is \<open>2 ^ (e - 52)\<close> for the exponent \<open>e\<close> of
  the value and at least \<open>2 ^ -1074\<close> (subnormal numbers), and a result that reaches
  \<open>2 ^ 1024\<close> is an infinity.
\<close>

definition ulp_exp :: "rat \<Rightarrow> int" where
  "ulp_exp a = max (flog2 a) (- 1022) - 52"

definition double_mag :: "rat \<Rightarrow> rat" where
  "double_mag a = of_int (py_round (a / 2 powi ulp_exp a)) * 2 powi ulp_exp a"

definition double_round :: "rat \<Rightarrow> pyfloat" where
  "double_round x =
     (if x = 0 then Fin 0
      else if 0 < x then (if 1024 \<le> flog2 (double_mag x) then PInf else Fin (double_mag x))
      else (if 1024 \<le> flog2 (double_mag (- x)) then NInf else Fin (- double_mag (- x))))"

text \<open>The comparison \<open>a < b\<close> of two floats: false when either is NaN.\<close>

fun f_lt :: "pyfloat \<Rightarrow> pyfloat \<Rightarrow> bool" where
  "f_lt NaN b = False"
| "f_lt a NaN = False"
| "f_lt (Fin x) (Fin y) = (x < y)"
| "f_lt (Fin x) PInf = True"
| "f_lt (Fin x) NInf = False"
| "f_lt PInf b = False"
| "f_lt NInf NInf = False"
| "f_lt NInf b = True"

text \<open>Subtraction, addition, multiplication and division of floats.\<close>

fun f_sub :: "pyfloat \<Rightarrow> pyfloat \<Rightarrow> pyfloat" where
  "f_sub NaN b = NaN"
| "f_sub a NaN = NaN"
| "f_sub (Fin x) (Fin y) = double_round (x - y)"
| "f_sub (Fin x) PInf = NInf"
| "f_sub (Fin x) NInf = PInf"
| "f_sub PInf PInf = NaN"
| "f_sub PInf b = PInf"
| "f_sub NInf NInf = NaN"
| "f_sub NInf b = NInf"

fun f_add :: "pyfloat \<Rightarrow> pyfloat \<Rightarrow> pyfloat" where
  "f_add NaN b = NaN"
| "f_add a NaN = NaN"
| "f_add (Fin x) (Fin y) = double_round (x + y)"
| "f_add (Fin x) b = b"
| "f_add PInf NInf = NaN"
| "f_add PInf b = PInf"
| "f_add NInf PInf = NaN"
| "f_add NInf b = NInf"

fun f_mul :: "pyfloat \<Rightarrow> pyfloat \<Rightarrow> pyfloat" where
  "f_mul NaN b = NaN"
| "f_mul a NaN = NaN"
| "f_mul (Fin x) (Fin y) = double_round (x * y)"
| "f_mul (Fin x) PInf = (if x = 0 then NaN else if 0 < x then PInf else NInf)"
| "f_mul (Fin x) NInf = (if x = 0 then NaN else if 0 < x then NInf else PInf)"
| "f_mul PInf (Fin y) = (if y = 0 then NaN else if 0 < y then PInf else NInf)"
| "f_mul NInf (Fin y) = (if y = 0 then NaN else if 0 < y then NInf else PInf)"
| "f_mul PInf PInf = PInf"
| "f_mul PInf NInf = NInf"
| "f_mul NInf PInf = NInf"
| "f_mul NInf NInf = PInf"

text \<open>Division by a zero raises ZeroDivisionError, whatever the dividend.\<close>

fun f_div :: "pyfloat \<Rightarrow> pyfloat \<Rightarrow> error + pyfloat" where
  "f_div a (Fin y) =
     (if y = 0 then Inl ZeroDivisionError
      else (case a of
              Fin x \<Rightarrow> Inr (double_round (x / y))
            | PInf \<Rightarrow> Inr (if 0 < y then PInf else NInf)
            | NInf \<Rightarrow> Inr (if 0 < y then NInf else PInf)
            | NaN \<Rightarrow> Inr NaN))"
| "f_div a NaN = Inr NaN"
| "f_div (Fin x) b = Inr (Fin 0)"
| "f_div a b = Inr NaN"

text \<open>
  \<open>round(x)\<close> of a float: ValueError on NaN, OverflowError on an infinity.
\<close>

fun py_round_float :: "pyfloat \<Rightarrow> error + int" where
  "py_round_float (Fin x) = Inr (py_round x)"
| "py_round_float NaN = Inl ValueError"
| "py_round_float a = Inl OverflowError"

text \<open>
  The conversion of an integer operand to a float: OverflowError when it is too large.
\<close>

definition int_to_float :: "int \<Rightarrow> error + pyfloat" where
  "int_to_float i =
     (case double_round (of_int i) of
        Fin x \<Rightarrow> Inr (Fin x)
      | _ \<Rightarrow> Inl OverflowError)"

subsection \<open>Facts about rounding\<close>

lemma py_round_of_int: "py_round (of_int n) = n"
  by (simp add: py_round_def)

lemma py_round_lower: "\<lfloor>x\<rfloor> \<le> py_round x"
  by (simp add: py_round_def Let_def)

lemma py_round_upper: "py_round x \<le> \<lfloor>x\<rfloor> + 1"
  by (simp add: py_round_def Let_def)

lemma py_round_mono:
  assumes "x \<le> y"
  shows "py_round x \<le> py_round y"
proof (cases "\<lfloor>x\<rfloor> = \<lfloor>y\<rfloor>")
  case True
  have "x - of_int \<lfloor>x\<rfloor> \<le> y - of_int \<lfloor>y\<rfloor>"
    using assms True by simp
  then show ?thesis
    using True by (auto simp: py_round_def Let_def)
next
  case False
  have "\<lfloor>x\<rfloor> \<le> \<lfloor>y\<rfloor>"
    using assms by (rule floor_mono)
  with False have "\<lfloor>x\<rfloor> + 1 \<le> \<lfloor>y\<rfloor>"
    by simp
  then show ?thesis
    using py_round_upper [of x] py_round_lower [of y] by linarith
qed

lemma bitlen_pow:
  assumes "0 < (p :: int)"
  shows "(2 :: rat) powi (bitlen p - 1) \<le> of_int p \<and> (of_int p :: rat) < 2 powi bitlen p"
proof -
  from bitlen_bounds [OF assms] have lo: "2 ^ nat (bitlen p - 1) \<le> p" and hi: "p < 2 ^ nat (bitlen p)"
    by simp_all
  have pos: "0 < bitlen p"
  proof (rule ccontr)
    assume "\<not> 0 < bitlen p"
    then have "nat (bitlen p) = 0" by simp
    with hi assms show False by simp
  qed
  from lo have "(of_int (2 ^ nat (bitlen p - 1)) :: rat) \<le> of_int p"
    by (simp only: of_int_le_iff)
  moreover from hi have "(of_int p :: rat) < of_int (2 ^ nat (bitlen p))"
    by (simp only: of_int_less_iff)
  ultimately show ?thesis
    using pos by (simp add: power_int_def)
qed

lemma flog2_bounds:
  assumes "0 < a"
  shows "2 powi flog2 a \<le> a \<and> a < 2 powi (flog2 a + 1)"
proof -
  obtain p q where pq: "quotient_of a = (p, q)" by (cases "quotient_of a")
  then have q: "0 < q" and a: "a = of_int p / of_int q"
    by (simp_all add: quotient_of_denom_pos quotient_of_div)
  with assms have p: "0 < p"
    by (simp add: zero_less_divide_iff)
  let ?d = "bitlen p - bitlen q"
  from bitlen_pow [OF p] bitlen_pow [OF q] have
    plo: "(2 :: rat) powi (bitlen p - 1) \<le> of_int p" and phi: "(of_int p :: rat) < 2 powi bitlen p" and
    qlo: "(2 :: rat) powi (bitlen q - 1) \<le> of_int q" and qhi: "(of_int q :: rat) < 2 powi bitlen q"
    by simp_all
  have qpos: "(0 :: rat) < of_int q" using q by simp
  have "a * of_int q < (2 :: rat) powi bitlen p"
    using a phi qpos by simp
  also have "\<dots> = 2 powi (?d + 1) * 2 powi (bitlen q - 1)"
    by (simp add: power_int_add [symmetric])
  also have "\<dots> \<le> 2 powi (?d + 1) * of_int q"
    using qlo by (simp add: mult_left_mono)
  finally have upper: "a < 2 powi (?d + 1)"
    using qpos by simp
  have "(2 :: rat) powi (?d - 1) * of_int q \<le> 2 powi (?d - 1) * 2 powi bitlen q"
    using qhi by (simp add: mult_left_mono less_imp_le)
  also have "\<dots> = 2 powi (bitlen p - 1)"
    by (simp add: power_int_add [symmetric])
  also have "\<dots> \<le> a * of_int q"
    using a plo qpos by simp
  finally have lower: "2 powi (?d - 1) \<le> a"
    using qpos by simp
  show ?thesis
  proof (cases "2 powi ?d \<le> a")
    case True
    with pq upper show ?thesis by (simp add: flog2_def)
  next
    case False
    with pq lower show ?thesis by (simp add: flog2_def)
  qed
qed

lemma flog2_mono:
  assumes "0 < a" and "a \<le> b"
  shows "flog2 a \<le> flog2 b"
proof (rule ccontr)
  assume "\<not> flog2 a \<le> flog2 b"
  then have "flog2 b + 1 \<le> flog2 a" by simp
  then have "(2 :: rat) powi (flog2 b + 1) \<le> 2 powi flog2 a"
    by (intro power_int_increasing) simp_all
  with flog2_bounds [OF assms(1)] flog2_bounds [of b] assms show False
    by simp
qed

lemma double_mag_nonneg:
  assumes "0 < a"
  shows "0 \<le> double_mag a"
proof -
  have "0 \<le> a / 2 powi ulp_exp a"
    using assms by simp
  from py_round_mono [OF this] have "0 \<le> py_round (a / 2 powi ulp_exp a)"
    using py_round_of_int [of 0] by simp
  then show ?thesis
    by (simp add: double_mag_def)
qed

lemma double_mag_mono:
  assumes "0 < a" and "a \<le> b"
  shows "double_mag a \<le> double_mag b"
proof -
  let ?ea = "ulp_exp a" and ?eb = "ulp_exp b"
  from assms have b: "0 < b" by simp
  from flog2_mono [OF assms] have le: "?ea \<le> ?eb"
    by (simp add: ulp_exp_def)
  show ?thesis
  proof (cases "?ea = ?eb")
    case True
    from assms(2) have "a / 2 powi ?ea \<le> b / 2 powi ?ea"
      by (simp add: divide_right_mono)
    from py_round_mono [OF this] have
      "(of_int (py_round (a / 2 powi ?ea)) :: rat) \<le> of_int (py_round (b / 2 powi ?ea))"
      by simp
    then have "of_int (py_round (a / 2 powi ?ea)) * 2 powi ?ea
                 \<le> of_int (py_round (b / 2 powi ?ea)) * (2 :: rat) powi ?ea"
      by (simp add: mult_right_mono)
    with True show ?thesis by (simp add: double_mag_def)
  next
    case False
    with le have lt: "?ea < ?eb" by simp
    then have fb: "?eb = flog2 b - 52" and fa: "flog2 a \<le> ?ea + 52"
      by (auto simp: ulp_exp_def max_def split: if_splits)
    have "a < 2 powi (flog2 a + 1)"
      using flog2_bounds [OF assms(1)] by simp
    also have "\<dots> \<le> 2 powi (?ea + 53)"
      using fa by (intro power_int_increasing) simp_all
    finally have "a / 2 powi ?ea < 2 powi (?ea + 53) / 2 powi ?ea"
      by (simp add: divide_strict_right_mono)
    also have "\<dots> = of_int (2 ^ 53)"
      by (simp add: power_int_add)
    finally have "a / 2 powi ?ea \<le> of_int (2 ^ 53)"
      by simp
    from py_round_mono [OF this] have "py_round (a / 2 powi ?ea) \<le> 2 ^ 53"
      by (simp only: py_round_of_int)
    then have "(of_int (py_round (a / 2 powi ?ea)) :: rat) \<le> of_int (2 ^ 53)"
      by (simp only: of_int_le_iff)
    then have "double_mag a \<le> of_int (2 ^ 53) * 2 powi ?ea"
      by (simp add: double_mag_def mult_right_mono)
    also have "\<dots> = 2 powi (?ea + 53)"
      by (simp add: power_int_add)
    also have "\<dots> \<le> 2 powi (?eb + 52)"
      using lt by (intro power_int_increasing) simp_all
    finally have upper: "double_mag a \<le> 2 powi (?eb + 52)" .
    have "2 powi (?eb + 52) \<le> b"
      using flog2_bounds [OF b] fb by simp
    then have "2 powi (?eb + 52) / 2 powi ?eb \<le> b / 2 powi ?eb"
      by (simp add: divide_right_mono)
    moreover have "(2 :: rat) powi (?eb + 52) / 2 powi ?eb = of_int (2 ^ 52)"
      by (simp add: power_int_add)
    ultimately have "of_int (2 ^ 52) \<le> b / 2 powi ?eb"
      by simp
    from py_round_mono [OF this] have "2 ^ 52 \<le> py_round (b / 2 powi ?eb)"
      by (simp only: py_round_of_int)
    then have "(of_int (2 ^ 52) :: rat) \<le> of_int (py_round (b / 2 powi ?eb))"
      by (simp only: of_int_le_iff)
    then have "of_int (2 ^ 52) * 2 powi ?eb \<le> double_mag b"
      by (simp add: double_mag_def mult_right_mono)
    moreover have "of_int (2 ^ 52) * 2 powi ?eb = (2 :: rat) powi (?eb + 52)"
      by (simp add: power_int_add)
    ultimately have "2 powi (?eb + 52) \<le> double_mag b"
      by simp
    with upper show ?thesis by simp
  qed
qed

lemma double_round_mono:
  assumes "x \<le> y" and "double_round x = Fin a" and "double_round y = Fin b"
  shows "a \<le> b"
proof -
  consider "0 < x" | "y < 0" | "x \<le> 0" "0 \<le> y" by linarith
  then show ?thesis
  proof cases
    case 1
    with assms(1) have "0 < y" by simp
    with 1 assms(2,3) have "a = double_mag x" and "b = double_mag y"
      by (auto simp: double_round_def split: if_splits)
    with double_mag_mono [OF 1 assms(1)] show ?thesis by simp
  next
    case 2
    with assms(1) have "x < 0" by simp
    with 2 assms(2,3) have "a = - double_mag (- x)" and "b = - double_mag (- y)"
      by (auto simp: double_round_def split: if_splits)
    moreover from 2 assms(1) have "double_mag (- y) \<le> double_mag (- x)"
      by (intro double_mag_mono) simp_all
    ultimately show ?thesis by simp
  next
    case 3
    have "a \<le> 0"
    proof (cases "x = 0")
      case True
      with assms(2) show ?thesis by (simp add: double_round_def)
    next
      case False
      with 3 have "x < 0" by simp
      with assms(2) have "a = - double_mag (- x)"
        by (auto simp: double_round_def split: if_splits)
      with double_mag_nonneg [of "- x"] \<open>x < 0\<close> show ?thesis by simp
    qed
    moreover have "0 \<le> b"
    proof (cases "y = 0")
      case True
      with assms(3) show ?thesis by (simp add: double_round_def)
    next
      case False
      with 3 have "0 < y" by simp
      with assms(3) have "b = double_mag y"
        by (auto simp: double_round_def split: if_splits)
      with double_mag_nonneg [of y] \<open>0 < y\<close> show ?thesis by simp
    qed
    ultimately show ?thesis by simp
  qed
qed

lemma double_round_consts:
  "double_round 0 = Fin 0" "double_round 1 = Fin 1" "double_round 254 = Fin 254"
  "double_round 255 = Fin 255"
  by code_simp+

lemma flog2_overflow:
  assumes "0 < r"
  shows "1024 \<le> flog2 r \<longleftrightarrow> 2 powi 1024 \<le> r"
proof
  assume "1024 \<le> flog2 r"
  then have "(2 :: rat) powi 1024 \<le> 2 powi flog2 r"
    by (intro power_int_increasing) simp_all
  with flog2_bounds [OF assms] show "2 powi 1024 \<le> r" by simp
next
  assume r: "2 powi 1024 \<le> r"
  show "1024 \<le> flog2 r"
  proof (rule ccontr)
    assume "\<not> 1024 \<le> flog2 r"
    then have "flog2 r + 1 \<le> 1024" by simp
    then have "(2 :: rat) powi (flog2 r + 1) \<le> 2 powi 1024"
      by (intro power_int_increasing) simp_all
    with flog2_bounds [OF assms] r show False by simp
  qed
qed

section \<open>Feature scaling (main, lines 247--262)\<close>

text \<open>
  \<open>min(val)\<close> and \<open>max(val)\<close> raise ValueError on an empty list; otherwise they keep
  the first item and replace it by every later item that compares smaller (greater).
\<close>

definition py_min :: "pyfloat list \<Rightarrow> error + pyfloat" where
  "py_min xs =
     (case xs of
        [] \<Rightarrow> Inl ValueError
      | x # ys \<Rightarrow> Inr (fold (\<lambda>y m. if f_lt y m then y else m) ys x))"

definition py_max :: "pyfloat list \<Rightarrow> error + pyfloat" where
  "py_max xs =
     (case xs of
        [] \<Rightarrow> Inl ValueError
      | x # ys \<Rightarrow> Inr (fold (\<lambda>y m. if f_lt m y then y else m) ys x))"

text \<open>
  The loop \<open>for key,val in feature_list.items()\<close> that fills \<open>feature_mins\<close>
  and \<open>feature_ranges\<close>.
\<close>

fun feature_scales ::
  "(string \<times> pyfloat list) list \<Rightarrow> (string \<times> pyfloat) list \<Rightarrow> (string \<times> pyfloat) list
     \<Rightarrow> error + ((string \<times> pyfloat) list \<times> (string \<times> pyfloat) list)" where
  "feature_scales [] mins ranges = Inr (mins, ranges)"
| "feature_scales ((key, val) # rest) mins ranges =
     (case py_min val of
        Inl e \<Rightarrow> Inl e
      | Inr mn \<Rightarrow>
          (case py_max val of
             Inl e \<Rightarrow> Inl e
           | Inr mx \<Rightarrow>
               feature_scales rest (AList.update key mn mins)
                 (AList.update key (f_sub mx mn) ranges)))"

text \<open>
  The operand \<open>fl[ft]\<close> of the subtraction: a string or a list minus a float is a
  TypeError, an integer is converted to a float.
\<close>

fun py_num :: "pyval \<Rightarrow> error + pyfloat" where
  "py_num (PFloat x) = Inr x"
| "py_num (PInt i) = int_to_float i"
| "py_num (PStr s) = Inl TypeError"
| "py_num (PList xs) = Inl TypeError"

text \<open>
  \<open>round((x - mn)/rg * 254 + 1)\<close> on floats, each operation rounded in its turn.
\<close>

definition scale_float :: "pyfloat \<Rightarrow> pyfloat \<Rightarrow> pyfloat \<Rightarrow> error + int" where
  "scale_float x mn rg =
     (case f_div (f_sub x mn) rg of
        Inl e \<Rightarrow> Inl e
      | Inr q \<Rightarrow> py_round_float (f_add (f_mul q (Fin 254)) (Fin 1)))"

text \<open>
  The expression \<open>round((fl[ft] - feature_mins[ft])/feature_ranges[ft] * 254 + 1)\<close>,
  evaluated left to right: a missing key raises KeyError, a zero range raises
  ZeroDivisionError.
\<close>

definition scale_expr ::
  "pydict \<Rightarrow> string \<Rightarrow> (string \<times> pyfloat) list \<Rightarrow> (string \<times> pyfloat) list \<Rightarrow> error + int" where
  "scale_expr fl ft mins ranges =
     (case map_of fl ft of
        None \<Rightarrow> Inl KeyError
      | Some v \<Rightarrow>
          (case map_of mins ft of
             None \<Rightarrow> Inl KeyError
           | Some mn \<Rightarrow>
               (case py_num v of
                  Inl e \<Rightarrow> Inl e
                | Inr x \<Rightarrow>
                    (case map_of ranges ft of
                       None \<Rightarrow> Inl KeyError
                     | Some rg \<Rightarrow> scale_float x mn rg))))"

text \<open>
  The inner loop \<open>for ft in feature_list\<close> on one record, with its
  \<open>try ... except ZeroDivisionError\<close>; every other exception propagates. The set
  \<open>unique_levels\<close> is a list without repetitions.
\<close>

fun scale_record ::
  "string list \<Rightarrow> (string \<times> pyfloat) list \<Rightarrow> (string \<times> pyfloat) list \<Rightarrow> pydict \<Rightarrow> int list
     \<Rightarrow> error + (pydict \<times> int list)" where
  "scale_record [] mins ranges fl unique_levels = Inr (fl, unique_levels)"
| "scale_record (ft # fts) mins ranges fl unique_levels =
     (case scale_expr fl ft mins ranges of
        Inr l \<Rightarrow>
          scale_record fts mins ranges (AList.update ft (PInt l) fl)
            (List.insert l unique_levels)
      | Inl e \<Rightarrow>
          if e = ZeroDivisionError
          then scale_record fts mins ranges (AList.update ft (PInt 0) fl)
                 (List.insert 0 unique_levels)
          else Inl e)"

text \<open>The outer loop \<open>for fl in fp.iterate()\<close>.\<close>

fun scale_all ::
  "pydict list \<Rightarrow> string list \<Rightarrow> (string \<times> pyfloat) list \<Rightarrow> (string \<times> pyfloat) list \<Rightarrow> int list
     \<Rightarrow> error + (pydict list \<times> int list)" where
  "scale_all [] fts mins ranges unique_levels = Inr ([], unique_levels)"
| "scale_all (fl # fls) fts mins ranges unique_levels =
     (case scale_record fts mins ranges fl unique_levels of
        Inl e \<Rightarrow> Inl e
      | Inr (fl', lv) \<Rightarrow>
          (case scale_all fls fts mins ranges lv of
             Inl e \<Rightarrow> Inl e
           | Inr (fls', lv') \<Rightarrow> Inr (fl' # fls', lv')))"

definition set_feature_scales ::
  "pydict list \<Rightarrow> (string \<times> pyfloat list) list \<Rightarrow> error + (pydict list \<times> int list)" where
  "set_feature_scales fp feature_list =
     (case feature_scales feature_list [] [] of
        Inl e \<Rightarrow> Inl e
      | Inr (feature_mins, feature_ranges) \<Rightarrow>
          scale_all fp (map fst feature_list) feature_mins feature_ranges [])"

subsection \<open>The scaling loops\<close>

lemma feature_scales_other:
  "feature_scales fl mins ranges = Inr (mins', ranges') \<Longrightarrow> k \<notin> fst ` set fl \<Longrightarrow>
     map_of mins' k = map_of mins k \<and> map_of ranges' k = map_of ranges k"
proof (induction fl arbitrary: mins ranges)
  case Nil
  then show ?case by simp
next
  case (Cons p rest)
  obtain key val where p: "p = (key, val)" by (cases p)
  from Cons.prems p obtain mn mx where
    run: "feature_scales rest (AList.update key mn mins) (AList.update key (f_sub mx mn) ranges)
            = Inr (mins', ranges')"
    by (auto split: sum.splits)
  from Cons.prems p have "k \<noteq> key" and "k \<notin> fst ` set rest" by auto
  with Cons.IH [OF run] show ?case
    by (simp add: update_conv')
qed

lemma feature_scales_lookup:
  "feature_scales fl mins ranges = Inr (mins', ranges') \<Longrightarrow> distinct (map fst fl) \<Longrightarrow>
   map_of fl ft = Some vals \<Longrightarrow>
     \<exists>mn mx. py_min vals = Inr mn \<and> py_max vals = Inr mx \<and>
       map_of mins' ft = Some mn \<and> map_of ranges' ft = Some (f_sub mx mn)"
proof (induction fl arbitrary: mins ranges)
  case Nil
  then show ?case by simp
next
  case (Cons p rest)
  obtain key val where p: "p = (key, val)" by (cases p)
  from Cons.prems p obtain mn mx where
    mn: "py_min val = Inr mn" and mx: "py_max val = Inr mx" and
    run: "feature_scales rest (AList.update key mn mins) (AList.update key (f_sub mx mn) ranges)
            = Inr (mins', ranges')"
    by (auto split: sum.splits)
  show ?case
  proof (cases "ft = key")
    case True
    with Cons.prems p have "vals = val" and "ft \<notin> fst ` set rest" by auto
    with feature_scales_other [OF run, of ft] mn mx True show ?thesis
      by (simp add: update_conv')
  next
    case False
    with Cons.prems p have "map_of rest ft = Some vals" and "distinct (map fst rest)"
      by auto
    with Cons.IH [OF run] show ?thesis by blast
  qed
qed

lemma scale_record_other:
  "scale_record fts mins ranges fl lv = Inr (fl', lv') \<Longrightarrow> k \<notin> set fts \<Longrightarrow>
     map_of fl' k = map_of fl k"
proof (induction fts arbitrary: fl lv)
  case Nil
  then show ?case by simp
next
  case (Cons ft fts)
  from Cons.prems obtain l where
    "scale_record fts mins ranges (AList.update ft (PInt l) fl) (List.insert l lv) = Inr (fl', lv')"
    by (auto split: sum.splits if_splits)
  from Cons.IH [OF this] Cons.prems(2) show ?case
    by (simp add: update_conv')
qed

lemma scale_record_levels:
  "scale_record fts mins ranges fl lv = Inr (fl', lv') \<Longrightarrow> set lv \<subseteq> set lv'"
proof (induction fts arbitrary: fl lv)
  case Nil
  then show ?case by simp
next
  case (Cons ft fts)
  from Cons.prems obtain l where
    "scale_record fts mins ranges (AList.update ft (PInt l) fl) (List.insert l lv) = Inr (fl', lv')"
    by (auto split: sum.splits if_splits)
  from Cons.IH [OF this] show ?case by auto
qed

lemma scale_record_at:
  "scale_record fts mins ranges fl lv = Inr (fl', lv') \<Longrightarrow> distinct fts \<Longrightarrow> ft \<in> set fts \<Longrightarrow>
     \<exists>l. map_of fl' ft = Some (PInt l) \<and> l \<in> set lv' \<and>
       (scale_expr fl ft mins ranges = Inr l \<or>
        scale_expr fl ft mins ranges = Inl ZeroDivisionError \<and> l = 0)"
proof (induction fts arbitrary: fl lv)
  case Nil
  then show ?case by simp
next
  case (Cons g fts)
  from Cons.prems obtain l where
    l: "scale_expr fl g mins ranges = Inr l \<or>
        scale_expr fl g mins ranges = Inl ZeroDivisionError \<and> l = 0" and
    run: "scale_record fts mins ranges (AList.update g (PInt l) fl) (List.insert l lv)
            = Inr (fl', lv')"
    by (auto split: sum.splits if_splits)
  show ?case
  proof (cases "ft = g")
    case True
    with Cons.prems have "g \<notin> set fts" by simp
    from scale_record_other [OF run this] have "map_of fl' g = Some (PInt l)"
      by (simp add: update_conv')
    moreover from scale_record_levels [OF run] have "l \<in> set lv'" by auto
    ultimately show ?thesis using l True by blast
  next
    case False
    with Cons.prems have "ft \<in> set fts" and "distinct fts" by auto
    from Cons.IH [OF run this(2) this(1)] obtain l' where
      l': "map_of fl' ft = Some (PInt l')" "l' \<in> set lv'"
        "scale_expr (AList.update g (PInt l) fl) ft mins ranges = Inr l' \<or>
         scale_expr (AList.update g (PInt l) fl) ft mins ranges = Inl ZeroDivisionError \<and> l' = 0"
      by blast
    from False have "scale_expr (AList.update g (PInt l) fl) ft mins ranges
                       = scale_expr fl ft mins ranges"
      by (simp add: scale_expr_def update_conv')
    with l' show ?thesis by auto
  qed
qed

lemma scale_all_length:
  "scale_all fp fts mins ranges lv = Inr (fp', lv') \<Longrightarrow> length fp' = length fp"
  by (induction fp arbitrary: fp' lv) (auto split: sum.splits prod.splits)

lemma scale_all_levels:
  "scale_all fp fts mins ranges lv = Inr (fp', lv') \<Longrightarrow> set lv \<subseteq> set lv'"
proof (induction fp arbitrary: fp' lv)
  case Nil
  then show ?case by simp
next
  case (Cons fl fls)
  from Cons.prems obtain fl1 lv1 fls1 where
    one: "scale_record fts mins ranges fl lv = Inr (fl1, lv1)" and
    run: "scale_all fls fts mins ranges lv1 = Inr (fls1, lv')"
    by (auto split: sum.splits prod.splits)
  from scale_record_levels [OF one] Cons.IH [OF run] show ?case by blast
qed

lemma scale_all_at:
  "scale_all fp fts mins ranges lv = Inr (fp', lv') \<Longrightarrow> i < length fp \<Longrightarrow>
     \<exists>lv1 lv2. scale_record fts mins ranges (fp ! i) lv1 = Inr (fp' ! i, lv2) \<and>
       set lv2 \<subseteq> set lv'"
proof (induction fp arbitrary: fp' lv i)
  case Nil
  then show ?case by simp
next
  case (Cons fl fls)
  from Cons.prems obtain fl1 lv1 fls1 where
    one: "scale_record fts mins ranges fl lv = Inr (fl1, lv1)" and
    run: "scale_all fls fts mins ranges lv1 = Inr (fls1, lv')" and
    fp': "fp' = fl1 # fls1"
    by (auto split: sum.splits prod.splits)
  show ?case
  proof (cases i)
    case 0
    with one fp' scale_all_levels [OF run] show ?thesis by auto
  next
    case (Suc j)
    with Cons.prems have "j < length fls" by simp
    from Cons.IH [OF run this] Suc fp' show ?thesis by simp
  qed
qed

subsection \<open>The scaling expression\<close>

text \<open>
  The level of a quotient that is finite: the multiplication by 254, the addition of 1 and
  the final \<open>round\<close>, None when an intermediate result is not finite.
\<close>

definition fin_level :: "rat \<Rightarrow> int option" where
  "fin_level t =
     (case double_round t of
        Fin q \<Rightarrow>
          (case double_round (q * 254) of
             Fin m \<Rightarrow> (case double_round (m + 1) of Fin s \<Rightarrow> Some (py_round s) | _ \<Rightarrow> None)
           | _ \<Rightarrow> None)
      | _ \<Rightarrow> None)"

lemma fin_level_mono:
  assumes "t1 \<le> t2" and "fin_level t1 = Some l1" and "fin_level t2 = Some l2"
  shows "l1 \<le> l2"
proof -
  from assms(2) obtain q1 m1 s1 where
    1: "double_round t1 = Fin q1" "double_round (q1 * 254) = Fin m1"
       "double_round (m1 + 1) = Fin s1" "l1 = py_round s1"
    by (auto simp: fin_level_def split: pyfloat.splits)
  from assms(3) obtain q2 m2 s2 where
    2: "double_round t2 = Fin q2" "double_round (q2 * 254) = Fin m2"
       "double_round (m2 + 1) = Fin s2" "l2 = py_round s2"
    by (auto simp: fin_level_def split: pyfloat.splits)
  from double_round_mono [OF assms(1) 1(1) 2(1)] have "q1 * 254 \<le> q2 * 254" by simp
  from double_round_mono [OF this 1(2) 2(2)] have "m1 + 1 \<le> m2 + 1" by simp
  from double_round_mono [OF this 1(3) 2(3)] have "s1 \<le> s2" .
  with 1(4) 2(4) show ?thesis by (simp add: py_round_mono)
qed

lemma fin_level_0: "fin_level 0 = Some 1"
  by (simp add: fin_level_def double_round_consts py_round_of_int [of 1, simplified])

lemma fin_level_1: "fin_level 1 = Some 255"
  by (simp add: fin_level_def double_round_consts py_round_of_int [of 255, simplified])

lemma f_sub_Fin:
  "f_sub x mn = Fin a \<Longrightarrow> \<exists>x' mn'. x = Fin x' \<and> mn = Fin mn' \<and> double_round (x' - mn') = Fin a"
  by (cases x; cases mn) simp_all

lemma f_div_Fin:
  "f_div a rg = Inr (Fin q) \<Longrightarrow>
     \<exists>a'. a = Fin a' \<and>
       ((\<exists>r. rg = Fin r \<and> r \<noteq> 0 \<and> double_round (a' / r) = Fin q) \<or>
        ((rg = PInf \<or> rg = NInf) \<and> q = 0))"
  by (cases a; cases rg) (auto split: if_splits)

lemma round_chain_Fin:
  "py_round_float (f_add (f_mul q (Fin 254)) (Fin 1)) = Inr l \<Longrightarrow>
     \<exists>q' m s. q = Fin q' \<and> double_round (q' * 254) = Fin m \<and>
       double_round (m + 1) = Fin s \<and> l = py_round s"
proof (cases q)
  case (Fin q')
  assume r: "py_round_float (f_add (f_mul q (Fin 254)) (Fin 1)) = Inr l"
  show ?thesis
  proof (cases "double_round (q' * 254)")
    case m: (Fin m)
    show ?thesis
    proof (cases "double_round (m + 1)")
      case (Fin s)
      with r m \<open>q = Fin q'\<close> show ?thesis by simp
    qed (use r m \<open>q = Fin q'\<close> in simp_all)
  qed (use r \<open>q = Fin q'\<close> in simp_all)
qed simp_all

lemma scale_float_Inr:
  assumes "scale_float x mn rg = Inr l"
  shows "\<exists>x' mn' a t. x = Fin x' \<and> mn = Fin mn' \<and> double_round (x' - mn') = Fin a \<and>
           ((\<exists>r. rg = Fin r \<and> r \<noteq> 0 \<and> t = a / r) \<or> ((rg = PInf \<or> rg = NInf) \<and> t = 0)) \<and>
           fin_level t = Some l"
proof -
  from assms obtain q where
    d: "f_div (f_sub x mn) rg = Inr q" and
    r: "py_round_float (f_add (f_mul q (Fin 254)) (Fin 1)) = Inr l"
    by (auto simp: scale_float_def split: sum.splits)
  from round_chain_Fin [OF r] obtain q' m s where
    q: "q = Fin q'" and c: "double_round (q' * 254) = Fin m" "double_round (m + 1) = Fin s"
      "l = py_round s"
    by blast
  from f_div_Fin [OF d [unfolded q]] obtain a where
    a: "f_sub x mn = Fin a" and
    rg: "(\<exists>r. rg = Fin r \<and> r \<noteq> 0 \<and> double_round (a / r) = Fin q') \<or>
         ((rg = PInf \<or> rg = NInf) \<and> q' = 0)"
    by blast
  from f_sub_Fin [OF a] obtain x' mn' where
    x: "x = Fin x'" "mn = Fin mn'" "double_round (x' - mn') = Fin a"
    by blast
  from rg show ?thesis
  proof
    assume "\<exists>r. rg = Fin r \<and> r \<noteq> 0 \<and> double_round (a / r) = Fin q'"
    then obtain r where r: "rg = Fin r" "r \<noteq> 0" "double_round (a / r) = Fin q'" by blast
    with c have "fin_level (a / r) = Some l" by (simp add: fin_level_def)
    with x r show ?thesis by blast
  next
    assume inf: "(rg = PInf \<or> rg = NInf) \<and> q' = 0"
    with c have "fin_level 0 = Some l"
      by (simp add: fin_level_def double_round_consts)
    with x inf show ?thesis by blast
  qed
qed

subsection \<open>Minimum and maximum\<close>

lemma f_lt_trans_not:
  "a \<noteq> NaN \<Longrightarrow> b \<noteq> NaN \<Longrightarrow> c \<noteq> NaN \<Longrightarrow> \<not> f_lt b a \<Longrightarrow> \<not> f_lt c b \<Longrightarrow> \<not> f_lt c a"
  by (cases a; cases b; cases c) auto

lemma f_lt_not_NaN: "f_lt a b \<Longrightarrow> a \<noteq> NaN \<and> b \<noteq> NaN"
  by (cases a; cases b) auto

lemma f_lt_asym: "f_lt a b \<Longrightarrow> \<not> f_lt b a"
  by (cases a; cases b) auto

lemma fold_min_props:
  assumes "fold (\<lambda>y m. if f_lt y m then y else m) ys x = m" and "m \<noteq> NaN"
  shows "x \<noteq> NaN \<and> \<not> f_lt x m \<and> (\<forall>y\<in>set ys. y \<noteq> NaN \<longrightarrow> \<not> f_lt y m)"
  using assms
proof (induction ys arbitrary: x)
  case Nil
  then show ?case by (cases m) auto
next
  case (Cons y ys)
  let ?x1 = "if f_lt y x then y else x"
  from Cons.prems have run: "fold (\<lambda>y m. if f_lt y m then y else m) ys ?x1 = m"
    by simp
  from Cons.IH [OF run Cons.prems(2)] have
    x1: "?x1 \<noteq> NaN" and le: "\<not> f_lt ?x1 m" and
    rest: "\<forall>z\<in>set ys. z \<noteq> NaN \<longrightarrow> \<not> f_lt z m"
    by simp_all
  have x: "x \<noteq> NaN"
    using x1 f_lt_not_NaN [of y x] by (auto split: if_splits)
  have "\<not> f_lt x ?x1"
    using f_lt_asym [of y x] by (cases x) auto
  from f_lt_trans_not [OF Cons.prems(2) x1 x le this] have xm: "\<not> f_lt x m" .
  have "\<not> f_lt y m" if y: "y \<noteq> NaN"
  proof -
    have "\<not> f_lt y ?x1"
      by (cases y) auto
    from f_lt_trans_not [OF Cons.prems(2) x1 y le this] show ?thesis .
  qed
  with x xm rest show ?case by simp
qed

lemma fold_max_props:
  assumes "fold (\<lambda>y m. if f_lt m y then y else m) ys x = m" and "m \<noteq> NaN"
  shows "x \<noteq> NaN \<and> \<not> f_lt m x \<and> (\<forall>y\<in>set ys. y \<noteq> NaN \<longrightarrow> \<not> f_lt m y)"
  using assms
proof (induction ys arbitrary: x)
  case Nil
  then show ?case by (cases m) auto
next
  case (Cons y ys)
  let ?x1 = "if f_lt x y then y else x"
  from Cons.prems have run: "fold (\<lambda>y m. if f_lt m y then y else m) ys ?x1 = m"
    by simp
  from Cons.IH [OF run Cons.prems(2)] have
    x1: "?x1 \<noteq> NaN" and le: "\<not> f_lt m ?x1" and
    rest: "\<forall>z\<in>set ys. z \<noteq> NaN \<longrightarrow> \<not> f_lt m z"
    by simp_all
  have x: "x \<noteq> NaN"
    using x1 f_lt_not_NaN [of x y] by (auto split: if_splits)
  have "\<not> f_lt ?x1 x"
    using f_lt_asym [of x y] by (cases x) auto
  from f_lt_trans_not [OF x x1 Cons.prems(2) this le] have xm: "\<not> f_lt m x" .
  have "\<not> f_lt m y" if y: "y \<noteq> NaN"
  proof -
    have "\<not> f_lt ?x1 y"
      by (cases y) auto
    from f_lt_trans_not [OF y x1 Cons.prems(2) this le] show ?thesis .
  qed
  with x xm rest show ?case by simp
qed

lemma py_min_le:
  assumes "py_min vals = Inr mn" and "mn \<noteq> NaN" and "v \<in> set vals" and "v \<noteq> NaN"
  shows "\<not> f_lt v mn"
proof (cases vals)
  case Nil
  with assms(3) show ?thesis by simp
next
  case (Cons x ys)
  with assms(1) have "fold (\<lambda>y m. if f_lt y m then y else m) ys x = mn"
    by (simp add: py_min_def)
  from fold_min_props [OF this assms(2)] assms(3,4) Cons show ?thesis by auto
qed

lemma py_max_ge:
  assumes "py_max vals = Inr mx" and "mx \<noteq> NaN" and "v \<in> set vals" and "v \<noteq> NaN"
  shows "\<not> f_lt mx v"
proof (cases vals)
  case Nil
  with assms(3) show ?thesis by simp
next
  case (Cons x ys)
  with assms(1) have "fold (\<lambda>y m. if f_lt m y then y else m) ys x = mx"
    by (simp add: py_max_def)
  from fold_max_props [OF this assms(2)] assms(3,4) Cons show ?thesis by auto
qed

lemma py_min_max_le:
  assumes "py_min vals = Inr (Fin mn)" and "py_max vals = Inr (Fin mx)"
  shows "mn \<le> mx"
proof (cases vals)
  case Nil
  with assms(1) show ?thesis by (simp add: py_min_def)
next
  case (Cons x ys)
  with assms have
    "fold (\<lambda>y m. if f_lt y m then y else m) ys x = Fin mn" and
    "fold (\<lambda>y m. if f_lt m y then y else m) ys x = Fin mx"
    by (simp_all add: py_min_def py_max_def)
  from fold_min_props [OF this(1)] fold_max_props [OF this(2)]
  have "x \<noteq> NaN" and "\<not> f_lt x (Fin mn)" and "\<not> f_lt (Fin mx) x" by simp_all
  then show ?thesis by (cases x) auto
qed

lemma range_nonneg:
  assumes "py_min vals = Inr mn" and "py_max vals = Inr mx" and "f_sub mx mn = Fin r"
  shows "0 \<le> r"
proof -
  from f_sub_Fin [OF assms(3)] obtain mx' mn' where
    m: "mx = Fin mx'" "mn = Fin mn'" "double_round (mx' - mn') = Fin r"
    by blast
  from py_min_max_le assms(1,2) m have "0 \<le> mx' - mn'" by simp
  from double_round_mono [OF this double_round_consts(1) m(3)] show ?thesis .
qed

subsection \<open>Levels\<close>

lemma scale_float_mono:
  assumes "f_lt v1 v2" and "scale_float v1 mn rg = Inr l1" and "scale_float v2 mn rg = Inr l2"
    and "\<And>r. rg = Fin r \<Longrightarrow> 0 \<le> r"
  shows "l1 \<le> l2"
proof -
  from scale_float_Inr [OF assms(2)] obtain x1 mn1 a1 t1 where
    1: "v1 = Fin x1" "mn = Fin mn1" "double_round (x1 - mn1) = Fin a1"
       "(\<exists>r. rg = Fin r \<and> r \<noteq> 0 \<and> t1 = a1 / r) \<or> ((rg = PInf \<or> rg = NInf) \<and> t1 = 0)"
       "fin_level t1 = Some l1"
    by blast
  from scale_float_Inr [OF assms(3)] obtain x2 mn2 a2 t2 where
    2: "v2 = Fin x2" "mn = Fin mn2" "double_round (x2 - mn2) = Fin a2"
       "(\<exists>r. rg = Fin r \<and> r \<noteq> 0 \<and> t2 = a2 / r) \<or> ((rg = PInf \<or> rg = NInf) \<and> t2 = 0)"
       "fin_level t2 = Some l2"
    by blast
  from assms(1) 1(1,2) 2(1,2) have "x1 - mn1 \<le> x2 - mn2" by simp
  from double_round_mono [OF this 1(3) 2(3)] have a: "a1 \<le> a2" .
  have "t1 \<le> t2"
  proof (cases rg)
    case (Fin r)
    with 1(4) 2(4) have t: "t1 = a1 / r" "t2 = a2 / r" and "r \<noteq> 0" by auto
    with assms(4) [OF Fin] have "0 < r" by simp
    with a t show ?thesis by (simp add: divide_right_mono)
  qed (use 1(4) 2(4) in auto)
  from fin_level_mono [OF this 1(5) 2(5)] show ?thesis .
qed



lemma scale_float_range:
  assumes "scale_float v mn (f_sub mx mn) = Inr l" and "\<not> f_lt v mn" and "\<not> f_lt mx v"
  shows "1 \<le> l \<and> l \<le> 255"
proof -
  from scale_float_Inr [OF assms(1)] obtain x' mn' a t where
    1: "v = Fin x'" "mn = Fin mn'" "double_round (x' - mn') = Fin a"
       "(\<exists>r. f_sub mx mn = Fin r \<and> r \<noteq> 0 \<and> t = a / r) \<or>
        ((f_sub mx mn = PInf \<or> f_sub mx mn = NInf) \<and> t = 0)"
       "fin_level t = Some l"
    by blast
  from assms(2) 1(1,2) have "0 \<le> x' - mn'" by simp
  from double_round_mono [OF this double_round_consts(1) 1(3)] have a0: "0 \<le> a" .
  have "0 \<le> t \<and> t \<le> 1"
  proof (cases "f_sub mx mn")
    case (Fin r)
    with 1(4) have t: "t = a / r" and r: "r \<noteq> 0" by auto
    from f_sub_Fin [OF Fin] 1(2) obtain mx' where
      mx: "mx = Fin mx'" "double_round (mx' - mn') = Fin r"
      by auto
    with assms(3) 1(1) have "x' - mn' \<le> mx' - mn'" by simp
    from double_round_mono [OF this 1(3) mx(2)] have "a \<le> r" .
    with a0 r t show ?thesis by simp
  qed (use 1(4) in auto)
  with fin_level_mono [OF _ fin_level_0 1(5), of] fin_level_mono [OF _ 1(5) fin_level_1]
  show ?thesis by simp
qed

lemma scale_expr_float:
  assumes "map_of fl ft = Some (PFloat v)" and "map_of mins ft = Some mn"
    and "map_of ranges ft = Some rg"
  shows "scale_expr fl ft mins ranges = scale_float v mn rg"
  using assms by (simp add: scale_expr_def)

lemma scale_float_zero: "scale_float v mn rg = Inl ZeroDivisionError \<longleftrightarrow> rg = Fin 0"
proof
  assume z: "scale_float v mn rg = Inl ZeroDivisionError"
  show "rg = Fin 0"
  proof (cases "f_div (f_sub v mn) rg")
    case (Inl e)
    then show ?thesis
      by (cases "f_sub v mn"; cases rg) (auto split: if_splits)
  next
    case (Inr q)
    with z have "py_round_float (f_add (f_mul q (Fin 254)) (Fin 1)) = Inl ZeroDivisionError"
      by (simp add: scale_float_def)
    then show ?thesis
      by (cases "f_add (f_mul q (Fin 254)) (Fin 1)") simp_all
  qed
next
  assume "rg = Fin 0"
  then show "scale_float v mn rg = Inl ZeroDivisionError"
    by (simp add: scale_float_def)
qed

text \<open>
  What the scaling step leaves in a record that held a float for a feature: the level of
  the scaling expression, or 0 when the range is zero.
\<close>

lemma set_feature_scales_at:
  assumes keys: "distinct (map fst feature_list)"
    and run: "set_feature_scales fp feature_list = Inr (fp', unique_levels)"
    and i: "i < length fp"
    and ft: "map_of feature_list ft = Some vals"
    and v: "map_of (fp ! i) ft = Some (PFloat v)"
  shows "\<exists>mn mx l. py_min vals = Inr mn \<and> py_max vals = Inr mx \<and>
           map_of (fp' ! i) ft = Some (PInt l) \<and> l \<in> set unique_levels \<and>
           (if f_sub mx mn = Fin 0 then l = 0 else scale_float v mn (f_sub mx mn) = Inr l)"
proof -
  from run obtain mins ranges where
    scales: "feature_scales feature_list [] [] = Inr (mins, ranges)" and
    loop: "scale_all fp (map fst feature_list) mins ranges [] = Inr (fp', unique_levels)"
    by (auto simp: set_feature_scales_def split: sum.splits prod.splits)
  from feature_scales_lookup [OF scales keys ft] obtain mn mx where
    mn: "py_min vals = Inr mn" and mx: "py_max vals = Inr mx" and
    mins: "map_of mins ft = Some mn" and ranges: "map_of ranges ft = Some (f_sub mx mn)"
    by blast
  from scale_all_at [OF loop i] obtain lv1 lv2 where
    one: "scale_record (map fst feature_list) mins ranges (fp ! i) lv1 = Inr (fp' ! i, lv2)" and
    sub: "set lv2 \<subseteq> set unique_levels"
    by blast
  from ft have "ft \<in> set (map fst feature_list)"
    by (metis map_of_eq_None_iff option.distinct(1) set_map)
  from scale_record_at [OF one keys this] obtain l where
    l: "map_of (fp' ! i) ft = Some (PInt l)" "l \<in> set lv2"
      "scale_expr (fp ! i) ft mins ranges = Inr l \<or>
       scale_expr (fp ! i) ft mins ranges = Inl ZeroDivisionError \<and> l = 0"
    by blast
  from l(3) scale_expr_float [OF v mins ranges] scale_float_zero [of v mn "f_sub mx mn"]
  have "if f_sub mx mn = Fin 0 then l = 0 else scale_float v mn (f_sub mx mn) = Inr l"
    by (auto split: if_splits)
  with l sub mn mx show ?thesis by blast
qed

subsection \<open>Properties of the scaling step\<close>

text \<open>
  The roundings of the float operations matter for the level: for the means 24.98, 8.1
  and 48.74 the exact value of the expression is 106.5, whose nearest even integer is
  106, and the float computation gives 107.
\<close>

lemma scale_float_binary64_example:
  "scale_float (double_round (2498 / 100)) (double_round (81 / 10))
     (f_sub (double_round (4874 / 100)) (double_round (81 / 10))) = Inr 107 \<and>
   py_round ((2498 / 100 - 81 / 10) / (4874 / 100 - 81 / 10) * 254 + 1) = 106"
  by code_simp

text \<open>
  Claim C1, amended. After the scaling step has run, every image record whose value for a
  feature was one of the means collected for that feature holds an integer level for it,
  which is recorded in the set of levels and lies between 0 and 255; the level is 0
  exactly when the range of the collected means (maximum minus minimum) is zero, and
  otherwise it is \<open>round((value - min) / range * 254 + 1)\<close>, computed in floats, and lies
  between 1 and 255.
\<close>

theorem scaling_levels:
  assumes "distinct (map fst feature_list)"
    and "set_feature_scales fp feature_list = Inr (fp', unique_levels)"
    and "i < length fp"
    and "map_of feature_list ft = Some vals"
    and "map_of (fp ! i) ft = Some (PFloat v)"
    and "v \<in> set vals"
    and "py_min vals = Inr mn"
    and "py_max vals = Inr mx"
  shows "\<exists>l. map_of (fp' ! i) ft = Some (PInt l) \<and> l \<in> set unique_levels \<and>
           0 \<le> l \<and> l \<le> 255 \<and> (l = 0 \<longleftrightarrow> f_sub mx mn = Fin 0) \<and>
           (f_sub mx mn \<noteq> Fin 0 \<longrightarrow>
              (\<exists>q. f_div (f_sub v mn) (f_sub mx mn) = Inr q \<and>
                 py_round_float (f_add (f_mul q (Fin 254)) (Fin 1)) = Inr l) \<and> 1 \<le> l)"
proof -
  from set_feature_scales_at [OF assms(1-5)] assms(7,8) obtain l where
    at: "map_of (fp' ! i) ft = Some (PInt l)" and lv: "l \<in> set unique_levels" and
    l: "if f_sub mx mn = Fin 0 then l = 0 else scale_float v mn (f_sub mx mn) = Inr l"
    by auto
  show ?thesis
  proof (cases "f_sub mx mn = Fin 0")
    case True
    with at lv l show ?thesis by auto
  next
    case False
    with l have sf: "scale_float v mn (f_sub mx mn) = Inr l" by simp
    from scale_float_Inr [OF sf] have fin: "v \<noteq> NaN" "mn \<noteq> NaN" "f_sub mx mn \<noteq> NaN"
      by auto
    then have "mx \<noteq> NaN" by (cases mx) auto
    from py_min_le [OF assms(7) fin(2) assms(6) fin(1)]
      py_max_ge [OF assms(8) this assms(6) fin(1)]
    have "\<not> f_lt v mn" and "\<not> f_lt mx v" .
    from scale_float_range [OF sf this] have range: "1 \<le> l" "l \<le> 255" by simp_all
    from sf have "\<exists>q. f_div (f_sub v mn) (f_sub mx mn) = Inr q \<and>
        py_round_float (f_add (f_mul q (Fin 254)) (Fin 1)) = Inr l"
      by (auto simp: scale_float_def split: sum.splits)
    with at lv range False show ?thesis by auto
  qed
qed

theorem scaling_levels_witness:
  "distinct (map fst [(''area'', [Fin 15, Fin 5, Fin 25])]) \<and>
   set_feature_scales
     [[(''file'', PStr ''A.tif''), (''area'', PFloat (Fin 15))],
      [(''file'', PStr ''B.tif''), (''area'', PFloat (Fin 5))],
      [(''file'', PStr ''C.tif''), (''area'', PFloat (Fin 25))]]
     [(''area'', [Fin 15, Fin 5, Fin 25])]
     = Inr ([[(''file'', PStr ''A.tif''), (''area'', PInt 128)],
             [(''file'', PStr ''B.tif''), (''area'', PInt 1)],
             [(''file'', PStr ''C.tif''), (''area'', PInt 255)]], [255, 1, 128]) \<and>
   py_min [Fin 15, Fin 5, Fin 25] = Inr (Fin 5) \<and>
   py_max [Fin 15, Fin 5, Fin 25] = Inr (Fin 25) \<and>
   f_sub (Fin 25) (Fin 5) = Fin 20 \<and>
   f_div (f_sub (Fin 15) (Fin 5)) (Fin 20) = Inr (Fin (1 / 2)) \<and>
   py_round_float (f_add (f_mul (Fin (1 / 2)) (Fin 254)) (Fin 1)) = Inr 128"
proof -
  have keys: "distinct (map fst [(''area'', [Fin 15, Fin 5, Fin 25])])"
    by simp
  have run: "set_feature_scales
     [[(''file'', PStr ''A.tif''), (''area'', PFloat (Fin 15))],
      [(''file'', PStr ''B.tif''), (''area'', PFloat (Fin 5))],
      [(''file'', PStr ''C.tif''), (''area'', PFloat (Fin 25))]]
     [(''area'', [Fin 15, Fin 5, Fin 25])]
     = Inr ([[(''file'', PStr ''A.tif''), (''area'', PInt 128)],
             [(''file'', PStr ''B.tif''), (''area'', PInt 1)],
             [(''file'', PStr ''C.tif''), (''area'', PInt 255)]], [255, 1, 128])"
    by code_simp
  have mn: "py_min [Fin 15, Fin 5, Fin 25] = Inr (Fin 5)"
    and mx: "py_max [Fin 15, Fin 5, Fin 25] = Inr (Fin 25)"
    by (simp_all add: py_min_def py_max_def)
  have rg: "f_sub (Fin 25) (Fin 5) = Fin 20"
    by code_simp
  have q: "f_div (f_sub (Fin 15) (Fin 5)) (Fin 20) = Inr (Fin (1 / 2))"
    by code_simp
  have l: "py_round_float (f_add (f_mul (Fin (1 / 2)) (Fin 254)) (Fin 1)) = Inr 128"
    by code_simp
  from scaling_levels [OF keys run _ _ _ _ mn mx, of 0 "''area''" "Fin 15"]
  show ?thesis
    using keys run mn mx rg q l by simp
qed

text \<open>
  Claim C3. Scaling is monotonic: for one feature, two image records with raw means
  \<open>v1 < v2\<close> are given levels \<open>l1 \<le> l2\<close> by the scaling step.
\<close>

theorem scaling_monotone:
  assumes "distinct (map fst feature_list)"
    and "set_feature_scales fp feature_list = Inr (fp', unique_levels)"
    and "i < length fp"
    and "j < length fp"
    and "map_of feature_list ft = Some vals"
    and "map_of (fp ! i) ft = Some (PFloat v1)"
    and "map_of (fp ! j) ft = Some (PFloat v2)"
    and "f_lt v1 v2"
  shows "\<exists>l1 l2. map_of (fp' ! i) ft = Some (PInt l1) \<and>
           map_of (fp' ! j) ft = Some (PInt l2) \<and> l1 \<le> l2"
proof -
  from set_feature_scales_at [OF assms(1,2,3,5,6)] obtain mn mx l1 where
    mn: "py_min vals = Inr mn" and mx: "py_max vals = Inr mx" and
    at1: "map_of (fp' ! i) ft = Some (PInt l1)" and
    l1: "if f_sub mx mn = Fin 0 then l1 = 0 else scale_float v1 mn (f_sub mx mn) = Inr l1"
    by blast
  from set_feature_scales_at [OF assms(1,2,4,5,7)] mn mx obtain l2 where
    at2: "map_of (fp' ! j) ft = Some (PInt l2)" and
    l2: "if f_sub mx mn = Fin 0 then l2 = 0 else scale_float v2 mn (f_sub mx mn) = Inr l2"
    by auto
  have "l1 \<le> l2"
  proof (cases "f_sub mx mn = Fin 0")
    case True
    with l1 l2 show ?thesis by simp
  next
    case False
    with l1 l2 have "scale_float v1 mn (f_sub mx mn) = Inr l1"
      and "scale_float v2 mn (f_sub mx mn) = Inr l2"
      by simp_all
    from scale_float_mono [OF assms(8) this] range_nonneg [OF mn mx] show ?thesis
      by blast
  qed
  with at1 at2 show ?thesis by blast
qed

theorem scaling_monotone_witness:
  "distinct (map fst [(''area'', [Fin 3, Fin 4, Fin 10])]) \<and>
   set_feature_scales
     [[(''area'', PFloat (Fin 3))], [(''area'', PFloat (Fin 4))], [(''area'', PFloat (Fin 10))]]
     [(''area'', [Fin 3, Fin 4, Fin 10])]
     = Inr ([[(''area'', PInt 1)], [(''area'', PInt 37)], [(''area'', PInt 255)]],
            [255, 37, 1]) \<and>
   f_lt (Fin 3) (Fin 4) \<and>
   (\<exists>l1 l2.
      map_of ([[(''area'', PInt 1)], [(''area'', PInt 37)], [(''area'', PInt 255)]] ! 0) ''area''
        = Some (PInt l1) \<and>
      map_of ([[(''area'', PInt 1)], [(''area'', PInt 37)], [(''area'', PInt 255)]] ! 1) ''area''
        = Some (PInt l2) \<and> l1 \<le> l2)"
proof -
  have keys: "distinct (map fst [(''area'', [Fin 3, Fin 4, Fin 10])])"
    by simp
  have run: "set_feature_scales
     [[(''area'', PFloat (Fin 3))], [(''area'', PFloat (Fin 4))], [(''area'', PFloat (Fin 10))]]
     [(''area'', [Fin 3, Fin 4, Fin 10])]
     = Inr ([[(''area'', PInt 1)], [(''area'', PInt 37)], [(''area'', PInt 255)]],
            [255, 37, 1])"
    by code_simp
  from scaling_monotone [OF keys run, of 0 1 "''area''" "[Fin 3, Fin 4, Fin 10]" "Fin 3" "Fin 4"]
  show ?thesis
    using keys run by simp
qed



section \<open>The image index and the stitching vectors\<close>

text \<open>
  The image index \<open>fp\<close> is the list of the image dictionaries in the order in which
  \<open>fp.iterate()\<close> yields them. A function that mutates the dictionary it found returns
  the index with that position replaced.

  \<open>Path(p).name\<close> is the last component of the path of a file.
\<close>

definition path_name :: "string \<Rightarrow> string" where
  "path_name p = rev (takeWhile (\<lambda>c. c \<noteq> CHR ''/'') (rev p))"

text \<open>\<open>f['file']\<close>, given to \<open>Path\<close> or to \<open>imagesize.get\<close>.\<close>

definition file_path :: "pydict \<Rightarrow> error + string" where
  "file_path f =
     (case map_of f ''file'' of
        None \<Rightarrow> Inl KeyError
      | Some v \<Rightarrow> (case v of PStr p \<Rightarrow> Inr p | _ \<Rightarrow> Inl TypeError))"

text \<open>
  \<open>_get_file_dict\<close>: the position of the first image whose file name equals
  \<open>fname\<close>, None when there is none. The argument is a Python value: a CSV cell that
  parsed as a number is a list, which equals no name.
\<close>

fun get_file_dict :: "pydict list \<Rightarrow> pyval \<Rightarrow> error + nat option" where
  "get_file_dict [] fname = Inr None"
| "get_file_dict (f # fs) fname =
     (case file_path f of
        Inl e \<Rightarrow> Inl e
      | Inr p \<Rightarrow>
          if PStr (path_name p) = fname then Inr (Some 0)
          else (case get_file_dict fs fname of
                  Inl e \<Rightarrow> Inl e
                | Inr None \<Rightarrow> Inr None
                | Inr (Some i) \<Rightarrow> Inr (Some (Suc i))))"

subsection \<open>The line pattern\<close>

text \<open>
  \<open>re.match\<close> on a pattern made of literal text and groups \<open>(.*)\<close>: the match
  starts at the beginning of the string and need not reach its end; a group takes as many
  characters other than a newline as it can and gives them back one at a time until the
  rest of the pattern matches. The result is the list of the groups.
\<close>

datatype retok = Lit string | Grp

fun first_some :: "'a option list \<Rightarrow> 'a option" where
  "first_some [] = None"
| "first_some (None # xs) = first_some xs"
| "first_some (Some x # xs) = Some x"

fun re_match :: "retok list \<Rightarrow> string \<Rightarrow> string list option" where
  "re_match [] s = Some []"
| "re_match (Lit l # ts) s =
     (if take (length l) s = l then re_match ts (drop (length l) s) else None)"
| "re_match (Grp # ts) s =
     first_some
       (map (\<lambda>k. map_option (\<lambda>gs. take k s # gs) (re_match ts (drop k s)))
          (rev [0..<Suc (length (takeWhile (\<lambda>c. c \<noteq> CHR 0x0A) s))]))"

definition STITCH_VARS :: "string list" where
  "STITCH_VARS = [''file'', ''correlation'', ''posX'', ''posY'', ''gridX'', ''gridY'']"

definition line_regex :: "retok list" where
  "line_regex =
     [Lit ''file: '', Grp, Lit ''; corr: '', Grp, Lit ''; position: ('', Grp, Lit '', '', Grp,
      Lit ''); grid: ('', Grp, Lit '', '', Grp, Lit '');'']"

text \<open>
  \<open>re.match(line_regex,line)\<close> followed by \<open>stitch_groups.groups()\<close>: a line
  that does not match gives None, and the attribute access on None raises AttributeError.
\<close>

definition stitch_groups_of :: "string \<Rightarrow> error + pydict" where
  "stitch_groups_of line =
     (case re_match line_regex line of
        None \<Rightarrow> Inl AttributeError
      | Some gs \<Rightarrow> Inr (zip STITCH_VARS (map PStr gs)))"

text \<open>\<open>d.update(other)\<close>: every item of \<open>other\<close> assigned in order.\<close>

definition py_update :: "pydict \<Rightarrow> pydict \<Rightarrow> pydict" where
  "py_update d other = fold (\<lambda>(k, v). AList.update k v) other d"

text \<open>
  What the loop body does to the image it found (lines 104--113): the stitching fields but
  the file, the vector id, the line counter, and the size that \<open>imagesize.get\<close>
  reports for the file (a parameter of the model).
\<close>

definition attach_stitch ::
  "(string \<Rightarrow> int \<times> int) \<Rightarrow> string \<Rightarrow> int \<Rightarrow> pydict \<Rightarrow> pydict \<Rightarrow> error + (pydict \<times> int \<times> int)" where
  "attach_stitch imagesize vind line_num stitch_groups current_image =
     (let c1 = py_update current_image (filter (\<lambda>(key, val). key \<noteq> ''file'') stitch_groups);
          c2 = AList.update ''vector'' (PStr vind) c1;
          c3 = AList.update ''line'' (PInt line_num) c2
      in case file_path c3 of
           Inl e \<Rightarrow> Inl e
         | Inr p \<Rightarrow>
             (let (w, h) = imagesize p;
                  c4 = AList.update ''width'' (PInt w) c3;
                  c5 = AList.update ''height'' (PInt h) c4
              in Inr (c5, w, h)))"

text \<open>
  The loop \<open>for line in fr\<close> over the lines of one stitching vector. The state is the
  index, the sets of widths and heights (lists without repetitions) and the line counter.
  The counters \<open>fnum\<close> and \<open>fcheck\<close> only drive the progress log and are left out.
\<close>

type_synonym stitch_state = "pydict list \<times> int list \<times> int list \<times> int"

fun parse_stitch_lines ::
  "(string \<Rightarrow> int \<times> int) \<Rightarrow> string \<Rightarrow> string list \<Rightarrow> stitch_state \<Rightarrow> error + stitch_state" where
  "parse_stitch_lines imagesize vind [] st = Inr st"
| "parse_stitch_lines imagesize vind (line # rest) (fp, unique_width, unique_height, line_num) =
     (case stitch_groups_of line of
        Inl e \<Rightarrow> Inl e
      | Inr stitch_groups \<Rightarrow>
          (case map_of stitch_groups ''file'' of
             None \<Rightarrow> Inl KeyError
           | Some fname \<Rightarrow>
               (case get_file_dict fp fname of
                  Inl e \<Rightarrow> Inl e
                | Inr None \<Rightarrow>
                    parse_stitch_lines imagesize vind rest
                      (fp, unique_width, unique_height, line_num)
                | Inr (Some i) \<Rightarrow>
                    (case attach_stitch imagesize vind line_num stitch_groups (fp ! i) of
                       Inl e \<Rightarrow> Inl e
                     | Inr (current_image, w, h) \<Rightarrow>
                         parse_stitch_lines imagesize vind rest
                           (fp[i := current_image], List.insert w unique_width,
                            List.insert h unique_height, line_num + 1)))))"

text \<open>
  The loop \<open>for vector in stitch_vectors\<close>: each stitching vector is its id (the
  digits of its file name) and its lines, and the line counter starts at 0 in each.
\<close>

fun parse_stitch_vectors ::
  "(string \<Rightarrow> int \<times> int) \<Rightarrow> (string \<times> string list) list
     \<Rightarrow> pydict list \<times> int list \<times> int list \<Rightarrow> error + (pydict list \<times> int list \<times> int list)" where
  "parse_stitch_vectors imagesize [] st = Inr st"
| "parse_stitch_vectors imagesize ((vind, lines) # rest) (fp, unique_width, unique_height) =
     (case parse_stitch_lines imagesize vind lines (fp, unique_width, unique_height, 0) of
        Inl e \<Rightarrow> Inl e
      | Inr (fp', uw, uh, line_num) \<Rightarrow> parse_stitch_vectors imagesize rest (fp', uw, uh))"

definition parse_stitch ::
  "(string \<Rightarrow> int \<times> int) \<Rightarrow> (string \<times> string list) list \<Rightarrow> pydict list
     \<Rightarrow> error + (pydict list \<times> int list \<times> int list)" where
  "parse_stitch imagesize stitch_vectors fp = parse_stitch_vectors imagesize stitch_vectors (fp, [], [])"


subsection \<open>Facts about the lookup and the loop over the lines\<close>







lemma first_some_in: "first_some xs = Some y \<Longrightarrow> Some y \<in> set xs"
  by (induction xs rule: first_some.induct) auto

lemma re_match_length:
  "re_match ts s = Some gs \<Longrightarrow> length gs = length (filter (\<lambda>t. t = Grp) ts)"
proof (induction ts arbitrary: s gs)
  case Nil
  then show ?case by simp
next
  case (Cons t ts)
  show ?case
  proof (cases t)
    case (Lit l)
    with Cons show ?thesis by (auto split: if_splits)
  next
    case Grp
    with Cons.prems have
      "first_some
         (map (\<lambda>k. map_option (\<lambda>gs. take k s # gs) (re_match ts (drop k s)))
            (rev [0..<Suc (length (takeWhile (\<lambda>c. c \<noteq> CHR 0x0A) s))])) = Some gs"
      by simp
    from first_some_in [OF this] obtain k where
      "Some gs = map_option (\<lambda>gs. take k s # gs) (re_match ts (drop k s))"
      by auto
    then obtain hs where "re_match ts (drop k s) = Some hs" and "gs = take k s # hs"
      by (cases "re_match ts (drop k s)") auto
    with Cons.IH Grp show ?thesis by simp
  qed
qed

lemma line_regex_groups:
  assumes "re_match line_regex line = Some gs"
  shows "\<exists>file corr px py gx gy. gs = [file, corr, px, py, gx, gy]"
proof -
  from re_match_length [OF assms] have "length gs = 6"
    by (simp add: line_regex_def)
  then show ?thesis
    by (auto simp: length_Suc_conv eval_nat_numeral)
qed







lemma parse_stitch_lines_malformed:
  "line \<in> set lines \<Longrightarrow> re_match line_regex line = None \<Longrightarrow>
     \<exists>e. parse_stitch_lines imagesize vind lines st = Inl e"
proof (induction lines arbitrary: st)
  case Nil
  then show ?case by simp
next
  case (Cons l rest)
  obtain fp uw uh n where st: "st = (fp, uw, uh, n)" by (cases st)
  show ?case
  proof (cases "l = line")
    case True
    with Cons.prems st show ?thesis
      by (simp add: stitch_groups_of_def)
  next
    case False
    with Cons.prems have "line \<in> set rest" by simp
    from Cons.IH [OF this Cons.prems(2)] st show ?thesis
      by (auto split: sum.splits option.splits prod.splits)
  qed
qed

lemma parse_stitch_vectors_malformed:
  "(vind, lines) \<in> set stitch_vectors \<Longrightarrow> line \<in> set lines \<Longrightarrow>
   re_match line_regex line = None \<Longrightarrow>
     \<exists>e. parse_stitch_vectors imagesize stitch_vectors st = Inl e"
proof (induction stitch_vectors arbitrary: st)
  case Nil
  then show ?case by simp
next
  case (Cons v rest)
  obtain fp uw uh where st: "st = (fp, uw, uh)" by (cases st)
  obtain vi ls where v: "v = (vi, ls)" by (cases v)
  show ?case
  proof (cases "v = (vind, lines)")
    case True
    with parse_stitch_lines_malformed [OF Cons.prems(2,3), of imagesize vind "(fp, uw, uh, 0)"]
      st v show ?thesis by auto
  next
    case False
    with Cons.prems have "(vind, lines) \<in> set rest" by simp
    from Cons.IH [OF this Cons.prems(2,3)] st v show ?thesis
      by (auto split: sum.splits prod.splits)
  qed
qed

subsection \<open>Properties of the stitching parser\<close>

text \<open>
  Claim C9. When some line of some stitching vector does not match the line pattern, the
  stitch parser does not return: it ends in an error, whatever the other lines are; and the
  loop over the lines raises at a malformed line it reaches (AttributeError, from
  \<open>stitch_groups.groups()\<close> on None) instead of going on to the next line.
\<close>

theorem stitch_malformed_line_fatal:
  assumes "(vind, lines) \<in> set stitch_vectors"
    and "line \<in> set lines"
    and "re_match line_regex line = None"
  shows "(\<exists>e. parse_stitch imagesize stitch_vectors fp = Inl e) \<and>
         parse_stitch_lines imagesize vind (line # rest) (fp, uw, uh, n) = Inl AttributeError"
  using parse_stitch_vectors_malformed [OF assms, of imagesize "(fp, [], [])"] assms(3)
  by (simp add: parse_stitch_def stitch_groups_of_def)

theorem stitch_malformed_line_fatal_witness:
  "(''1'', [''file: A.tif; corr: 0.5; position: (0, 0); grid: (0, 0);\<newline>'',
            ''file A.tif corr 0.5\<newline>''])
     \<in> set [(''1'', [''file: A.tif; corr: 0.5; position: (0, 0); grid: (0, 0);\<newline>'',
                     ''file A.tif corr 0.5\<newline>''])] \<and>
   re_match line_regex ''file A.tif corr 0.5\<newline>'' = None \<and>
   (\<exists>e. parse_stitch (\<lambda>p. (4, 3))
           [(''1'', [''file: A.tif; corr: 0.5; position: (0, 0); grid: (0, 0);\<newline>'',
                     ''file A.tif corr 0.5\<newline>''])]
           [[(''file'', PStr ''/in/A.tif'')]] = Inl e) \<and>
   parse_stitch_lines (\<lambda>p. (4, 3)) ''1'' [''file A.tif corr 0.5\<newline>'']
     ([[(''file'', PStr ''/in/A.tif'')]], [], [], 0) = Inl AttributeError"
proof -
  have bad: "re_match line_regex ''file A.tif corr 0.5\<newline>'' = None"
    by code_simp
  from stitch_malformed_line_fatal [OF _ _ bad,
      of "''1''" "[''file: A.tif; corr: 0.5; position: (0, 0); grid: (0, 0);\<newline>'',
                   ''file A.tif corr 0.5\<newline>'']"
         "[(''1'', [''file: A.tif; corr: 0.5; position: (0, 0); grid: (0, 0);\<newline>'',
                    ''file A.tif corr 0.5\<newline>''])]"
         "\<lambda>p. (4, 3)" "[[(''file'', PStr ''/in/A.tif'')]]" "[]" "[]" "[]" 0]
  show ?thesis
    using bad by simp
qed




section \<open>The feature files\<close>

text \<open>
  A CSV file is the list of its lines as \<open>readline\<close> returns them, each with its
  newline; past the last line \<open>readline\<close> returns the empty string. The conversion
  \<open>float(s)\<close> of a string is a parameter \<open>to_float\<close> of the model: None where
  Python raises ValueError.
\<close>

definition readline_cur :: "string list \<Rightarrow> string" where
  "readline_cur lines = (case lines of [] \<Rightarrow> [] | line # rest \<Rightarrow> line)"

text \<open>\<open>s.rstrip('\n')\<close> and \<open>s.split(',')\<close>.\<close>

definition rstrip_nl :: "string \<Rightarrow> string" where
  "rstrip_nl s = rev (dropWhile (\<lambda>c. c = CHR 0x0A) (rev s))"

fun py_split :: "char \<Rightarrow> string \<Rightarrow> string list" where
  "py_split c [] = [[]]"
| "py_split c (x # xs) =
     (if x = c then [] # py_split c xs
      else (case py_split c xs of [] \<Rightarrow> [[x]] | w # ws \<Rightarrow> (x # w) # ws))"

text \<open>
  \<open>float(v)\<close> of a Python value: a string goes through \<open>to_float\<close>, a list is a
  TypeError.
\<close>

fun py_float :: "(string \<Rightarrow> pyfloat option) \<Rightarrow> pyval \<Rightarrow> error + pyfloat" where
  "py_float to_float (PStr s) = (case to_float s of None \<Rightarrow> Inl ValueError | Some x \<Rightarrow> Inr x)"
| "py_float to_float (PInt i) = int_to_float i"
| "py_float to_float (PFloat x) = Inr x"
| "py_float to_float (PList xs) = Inl TypeError"

text \<open>\<open>get_number\<close>: the float, or None for the \<open>False\<close> it returns on ValueError.\<close>

definition get_number :: "(string \<Rightarrow> pyfloat option) \<Rightarrow> pyval \<Rightarrow> error + pyfloat option" where
  "get_number to_float s =
     (case py_float to_float s of
        Inr x \<Rightarrow> Inr (Some x)
      | Inl e \<Rightarrow> if e = ValueError then Inr None else Inl e)"

text \<open>
  The dictionary comprehension \<open>{var_ind[ind]:val for ind,val in enumerate(cells)}\<close>:
  a cell beyond the last header raises KeyError.
\<close>

fun parse_cells :: "string list \<Rightarrow> string list \<Rightarrow> pydict \<Rightarrow> error + pydict" where
  "parse_cells headers [] d = Inr d"
| "parse_cells [] (c # cs) d = Inl KeyError"
| "parse_cells (h # headers) (c # cs) d = parse_cells headers cs (AList.update h (PStr c) d)"

definition parse_row :: "string list \<Rightarrow> string \<Rightarrow> error + pydict" where
  "parse_row headers line = parse_cells headers (py_split CHR '','' (rstrip_nl line)) []"

text \<open>
  The loop over \<open>p_line.items()\<close> that replaces every cell that is a number by the
  one-element list of that number (lines 166--169).
\<close>

fun numberise :: "(string \<Rightarrow> pyfloat option) \<Rightarrow> pydict \<Rightarrow> pydict \<Rightarrow> error + pydict" where
  "numberise to_float [] p_line = Inr p_line"
| "numberise to_float ((key, val) # items) p_line =
     (case get_number to_float val of
        Inl e \<Rightarrow> Inl e
      | Inr None \<Rightarrow> numberise to_float items p_line
      | Inr (Some v) \<Rightarrow> numberise to_float items (AList.update key (PList [v]) p_line))"

definition row_dict :: "(string \<Rightarrow> pyfloat option) \<Rightarrow> string list \<Rightarrow> string \<Rightarrow> error + pydict" where
  "row_dict to_float headers line =
     (case parse_row headers line of
        Inl e \<Rightarrow> Inl e
      | Inr p_line \<Rightarrow> numberise to_float p_line p_line)"

text \<open>
  The body of the inner \<open>while\<close> (lines 183--188): for every key whose value is a list,
  \<open>p_line[key].append(float(val))\<close> with \<open>val\<close> that list; only ValueError is
  caught.
\<close>

fun group_body :: "(string \<Rightarrow> pyfloat option) \<Rightarrow> pydict \<Rightarrow> pydict \<Rightarrow> error + pydict" where
  "group_body to_float [] p_line = Inr p_line"
| "group_body to_float ((key, val) # items) p_line =
     (case val of
        PList xs \<Rightarrow>
          (case py_float to_float val of
             Inr x \<Rightarrow> group_body to_float items (AList.update key (PList (xs @ [x])) p_line)
           | Inl e \<Rightarrow> if e = ValueError then group_body to_float items p_line else Inl e)
      | _ \<Rightarrow> group_body to_float items p_line)"

text \<open>
  The inner \<open>while line and p_line['file'] == np_line['file']\<close> (lines 179--192),
  entered after a \<open>readline\<close>: \<open>lines\<close> starts at the line just read. It returns
  the row dictionary and the lines from the first one that is not of the group.
\<close>

fun group_loop ::
  "(string \<Rightarrow> pyfloat option) \<Rightarrow> string list \<Rightarrow> pydict \<Rightarrow> string list
     \<Rightarrow> error + (pydict \<times> string list)" where
  "group_loop to_float headers p_line [] =
     (case parse_row headers [] of
        Inl e \<Rightarrow> Inl e
      | Inr np_line \<Rightarrow> Inr (p_line, []))"
| "group_loop to_float headers p_line (line # rest) =
     (case parse_row headers line of
        Inl e \<Rightarrow> Inl e
      | Inr np_line \<Rightarrow>
          if line = [] then Inr (p_line, line # rest)
          else (case map_of p_line ''file'' of
                  None \<Rightarrow> Inl KeyError
                | Some pf \<Rightarrow>
                    (case map_of np_line ''file'' of
                       None \<Rightarrow> Inl KeyError
                     | Some nf \<Rightarrow>
                         if pf = nf
                         then (case group_body to_float p_line p_line of
                                 Inl e \<Rightarrow> Inl e
                               | Inr p_line' \<Rightarrow> group_loop to_float headers p_line' rest)
                         else Inr (p_line, line # rest))))"

text \<open>
  \<open>statistics.mean\<close> raises StatisticsError on an empty list. It adds finite values
  exactly and rounds the quotient once; when some value is not finite, the result is the
  float sum of the values that are not finite.
\<close>

fun fin_values :: "pyfloat list \<Rightarrow> rat list" where
  "fin_values [] = []"
| "fin_values (Fin x # xs) = x # fin_values xs"
| "fin_values (a # xs) = fin_values xs"

fun is_fin :: "pyfloat \<Rightarrow> bool" where
  "is_fin (Fin x) = True"
| "is_fin a = False"

definition py_mean :: "pyfloat list \<Rightarrow> error + pyfloat" where
  "py_mean xs =
     (if xs = [] then Inl StatisticsError
      else (case filter (\<lambda>a. \<not> is_fin a) xs of
              [] \<Rightarrow> Inr (double_round (sum_list (fin_values xs) / of_nat (length xs)))
            | a # rest \<Rightarrow> Inr (fold (\<lambda>b total. f_add total b) rest a)))"

text \<open>
  The loop that stores the means (lines 195--198) in the image at position \<open>i\<close> and
  appends them to \<open>feature_list\<close>.
\<close>

fun store_means ::
  "pydict \<Rightarrow> nat \<Rightarrow> pydict list \<times> (string \<times> pyfloat list) list
     \<Rightarrow> error + (pydict list \<times> (string \<times> pyfloat list) list)" where
  "store_means [] i st = Inr st"
| "store_means ((key, val) # items) i (fp, feature_list) =
     (case val of
        PList xs \<Rightarrow>
          (case py_mean xs of
             Inl e \<Rightarrow> Inl e
           | Inr m \<Rightarrow>
               (case map_of feature_list key of
                  None \<Rightarrow> Inl KeyError
                | Some vs \<Rightarrow>
                    store_means items i
                      (fp[i := AList.update key (PFloat m) (fp ! i)],
                       AList.update key (vs @ [m]) feature_list)))
      | _ \<Rightarrow> store_means items i (fp, feature_list))"

lemma group_loop_length:
  "group_loop to_float headers p_line lines = Inr (p_line', lines') \<Longrightarrow>
     length lines' \<le> length lines"
proof (induction lines arbitrary: p_line)
  case Nil
  then show ?case by (auto split: sum.splits)
next
  case (Cons line rest)
  then show ?case
    by (fastforce split: sum.splits if_splits option.splits)
qed

text \<open>
  The outer \<open>while line:\<close> over the data rows of one file (lines 163--204); \<open>lines\<close>
  starts at the current line. The progress counters are left out.
\<close>

function features_loop ::
  "(string \<Rightarrow> pyfloat option) \<Rightarrow> string list \<Rightarrow> string list
     \<Rightarrow> pydict list \<times> (string \<times> pyfloat list) list
     \<Rightarrow> error + (pydict list \<times> (string \<times> pyfloat list) list)" where
  "features_loop to_float headers [] st = Inr st"
| "features_loop to_float headers (line # rest) (fp, feature_list) =
     (if line = [] then Inr (fp, feature_list)
      else (case row_dict to_float headers line of
              Inl e \<Rightarrow> Inl e
            | Inr p_line \<Rightarrow>
                (case map_of p_line ''file'' of
                   None \<Rightarrow> Inl KeyError
                 | Some fname \<Rightarrow>
                     (case get_file_dict fp fname of
                        Inl e \<Rightarrow> Inl e
                      | Inr None \<Rightarrow> features_loop to_float headers rest (fp, feature_list)
                      | Inr (Some i) \<Rightarrow>
                          (case group_loop to_float headers p_line rest of
                             Inl e \<Rightarrow> Inl e
                           | Inr (p_line', rest') \<Rightarrow>
                               (case store_means p_line' i (fp, feature_list) of
                                  Inl e \<Rightarrow> Inl e
                                | Inr st' \<Rightarrow> features_loop to_float headers rest' st'))))))"
  by pat_completeness auto
termination
  by (relation "measure (\<lambda>(to_float, headers, lines, st). length lines)")
     (auto dest: group_loop_length)

text \<open>
  \<open>feature_list.update({key:[] for key in headers if key not in feature_list.keys()
  and key != 'file'})\<close>.
\<close>

definition add_headers :: "string list \<Rightarrow> (string \<times> pyfloat list) list \<Rightarrow> (string \<times> pyfloat list) list" where
  "add_headers headers feature_list =
     fold (\<lambda>key. AList.update key [])
       (filter (\<lambda>key. map_of feature_list key = None \<and> key \<noteq> ''file'') headers) feature_list"

text \<open>The loop \<open>for feat_file in csv_files\<close>, and \<open>_parse_features\<close>.\<close>

fun parse_feature_files ::
  "(string \<Rightarrow> pyfloat option) \<Rightarrow> string list list \<Rightarrow> pydict list \<times> (string \<times> pyfloat list) list
     \<Rightarrow> error + (pydict list \<times> (string \<times> pyfloat list) list)" where
  "parse_feature_files to_float [] st = Inr st"
| "parse_feature_files to_float (fr # files) (fp, feature_list) =
     (let first_line = readline_cur fr;
          headers = py_split CHR '','' (rstrip_nl first_line)
      in case features_loop to_float headers (tl fr) (fp, add_headers headers feature_list) of
           Inl e \<Rightarrow> Inl e
         | Inr st' \<Rightarrow> parse_feature_files to_float files st')"

definition parse_features ::
  "(string \<Rightarrow> pyfloat option) \<Rightarrow> string list list \<Rightarrow> pydict list
     \<Rightarrow> error + (pydict list \<times> (string \<times> pyfloat list) list)" where
  "parse_features to_float csv_files fp = parse_feature_files to_float csv_files (fp, [])"

text \<open>
  For concrete inputs: \<open>float\<close> on the strings that are unsigned decimal integers
  (the nearest float), and None on every other string.
\<close>

definition digit_of :: "char \<Rightarrow> nat option" where
  "digit_of c =
     (let n = of_char c :: nat in if 48 \<le> n \<and> n \<le> 57 then Some (n - 48) else None)"

definition dec_float :: "string \<Rightarrow> pyfloat option" where
  "dec_float s =
     (if s \<noteq> [] \<and> list_all (\<lambda>c. digit_of c \<noteq> None) s
      then Some (double_round (of_nat (fold (\<lambda>c n. 10 * n + the (digit_of c)) s 0)))
      else None)"

subsection \<open>Properties of the feature parser and of lookup misses\<close>

lemma group_body_list_type_error:
  "(key, PList xs) \<in> set items \<Longrightarrow> group_body to_float items p_line = Inl TypeError"
proof (induction items arbitrary: p_line)
  case Nil
  then show ?case by simp
next
  case (Cons item items)
  obtain k v where item: "item = (k, v)" by (cases item)
  show ?case
  proof (cases v)
    case (PList ys)
    with item show ?thesis by simp
  next
    case (PStr x)
    with Cons item show ?thesis by auto
  next
    case (PInt x)
    with Cons item show ?thesis by auto
  next
    case (PFloat x)
    with Cons item show ?thesis by auto
  qed
qed

lemma features_loop_skip:
  assumes "get_file_dict fp fname = Inr None"
    and "\<forall>row\<in>set grp. row \<noteq> [] \<and>
           (\<exists>p_line. row_dict to_float headers row = Inr p_line \<and>
              map_of p_line ''file'' = Some fname)"
  shows "features_loop to_float headers (grp @ rest) (fp, feature_list)
           = features_loop to_float headers rest (fp, feature_list)"
  using assms(2)
proof (induction grp)
  case Nil
  then show ?case by simp
next
  case (Cons row grp)
  then obtain p_line where "row \<noteq> []" and "row_dict to_float headers row = Inr p_line"
    and "map_of p_line ''file'' = Some fname"
    by auto
  with assms(1) Cons show ?case by simp
qed

text \<open>
  Claim C8. A stitching-vector line that matches the pattern, or a run of CSV rows that
  parse, whose file reference \<open>fname\<close> matches no record of the image index is
  skipped: the loop goes on with the lines that follow from the same index, sets and
  counter (for the CSV rows, the same index and feature table), and when nothing follows it
  returns that unchanged state, so no error is raised, no record is created and none is
  changed.
\<close>

theorem lookup_miss_discarded:
  assumes "get_file_dict fp fname = Inr None"
  shows "(stitch_groups_of line = Inr g \<and> map_of g ''file'' = Some fname \<longrightarrow>
            parse_stitch_lines imagesize vind (line # rest) (fp, uw, uh, n)
              = parse_stitch_lines imagesize vind rest (fp, uw, uh, n) \<and>
            parse_stitch_lines imagesize vind [line] (fp, uw, uh, n) = Inr (fp, uw, uh, n)) \<and>
         ((\<forall>row\<in>set grp. row \<noteq> [] \<and>
             (\<exists>p_line. row_dict to_float headers row = Inr p_line \<and>
                map_of p_line ''file'' = Some fname)) \<longrightarrow>
            features_loop to_float headers (grp @ rows) (fp, feature_list)
              = features_loop to_float headers rows (fp, feature_list) \<and>
            features_loop to_float headers grp (fp, feature_list) = Inr (fp, feature_list))"
proof (intro conjI impI)
  assume "stitch_groups_of line = Inr g \<and> map_of g ''file'' = Some fname"
  with assms show
    "parse_stitch_lines imagesize vind (line # rest) (fp, uw, uh, n)
       = parse_stitch_lines imagesize vind rest (fp, uw, uh, n)"
    and "parse_stitch_lines imagesize vind [line] (fp, uw, uh, n) = Inr (fp, uw, uh, n)"
    by simp_all
next
  assume grp: "\<forall>row\<in>set grp. row \<noteq> [] \<and>
     (\<exists>p_line. row_dict to_float headers row = Inr p_line \<and> map_of p_line ''file'' = Some fname)"
  from features_loop_skip [OF assms grp] show
    "features_loop to_float headers (grp @ rows) (fp, feature_list)
       = features_loop to_float headers rows (fp, feature_list)" .
  from features_loop_skip [OF assms grp, of "[]" feature_list] show
    "features_loop to_float headers grp (fp, feature_list) = Inr (fp, feature_list)"
    by simp
qed

theorem lookup_miss_discarded_witness:
  "get_file_dict [[(''file'', PStr ''/in/A.tif'')]] (PStr ''missing.tif'') = Inr None \<and>
   stitch_groups_of ''file: missing.tif; corr: 0.1; position: (0, 0); grid: (0, 0);\<newline>''
     = Inr [(''file'', PStr ''missing.tif''), (''correlation'', PStr ''0.1''),
            (''posX'', PStr ''0''), (''posY'', PStr ''0''), (''gridX'', PStr ''0''),
            (''gridY'', PStr ''0'')] \<and>
   row_dict dec_float [''file'', ''area''] ''missing.tif,7\<newline>''
     = Inr [(''file'', PStr ''missing.tif''), (''area'', PList [Fin 7])] \<and>
   row_dict dec_float [''file'', ''area''] ''missing.tif,8\<newline>''
     = Inr [(''file'', PStr ''missing.tif''), (''area'', PList [Fin 8])] \<and>
   parse_stitch_lines (\<lambda>p. (4, 3)) ''1''
     [''file: missing.tif; corr: 0.1; position: (0, 0); grid: (0, 0);\<newline>'']
     ([[(''file'', PStr ''/in/A.tif'')]], [], [], 0)
     = Inr ([[(''file'', PStr ''/in/A.tif'')]], [], [], 0) \<and>
   features_loop dec_float [''file'', ''area'']
     [''missing.tif,7\<newline>'', ''missing.tif,8\<newline>'']
     ([[(''file'', PStr ''/in/A.tif'')]], [(''area'', [])])
     = Inr ([[(''file'', PStr ''/in/A.tif'')]], [(''area'', [])])"
proof -
  have miss: "get_file_dict [[(''file'', PStr ''/in/A.tif'')]] (PStr ''missing.tif'') = Inr None"
    by code_simp
  have g: "stitch_groups_of ''file: missing.tif; corr: 0.1; position: (0, 0); grid: (0, 0);\<newline>''
     = Inr [(''file'', PStr ''missing.tif''), (''correlation'', PStr ''0.1''),
            (''posX'', PStr ''0''), (''posY'', PStr ''0''), (''gridX'', PStr ''0''),
            (''gridY'', PStr ''0'')]"
    by code_simp
  have r1: "row_dict dec_float [''file'', ''area''] ''missing.tif,7\<newline>''
     = Inr [(''file'', PStr ''missing.tif''), (''area'', PList [Fin 7])]"
    by code_simp
  have r2: "row_dict dec_float [''file'', ''area''] ''missing.tif,8\<newline>''
     = Inr [(''file'', PStr ''missing.tif''), (''area'', PList [Fin 8])]"
    by code_simp
  have grp: "\<forall>row\<in>set [''missing.tif,7\<newline>'', ''missing.tif,8\<newline>'']. row \<noteq> [] \<and>
     (\<exists>p_line. row_dict dec_float [''file'', ''area''] row = Inr p_line \<and>
        map_of p_line ''file'' = Some (PStr ''missing.tif''))"
    using r1 r2 by simp
  from lookup_miss_discarded [OF miss,
      of "''file: missing.tif; corr: 0.1; position: (0, 0); grid: (0, 0);\<newline>''"
         "[(''file'', PStr ''missing.tif''), (''correlation'', PStr ''0.1''),
            (''posX'', PStr ''0''), (''posY'', PStr ''0''), (''gridX'', PStr ''0''),
            (''gridY'', PStr ''0'')]"
         "\<lambda>p. (4, 3)" "''1''" "[]" "[]" "[]" 0
         "[''missing.tif,7\<newline>'', ''missing.tif,8\<newline>'']" dec_float "[''file'', ''area'']"
         "[]" "[(''area'', [])]"]
    g grp
  show ?thesis
    using miss g r1 r2 by simp
qed

text \<open>
  Claim C2 (the code departs from it). Two contiguous rows for \<open>A.tif\<close> with the values
  10 and 20 in the column \<open>area\<close> do not give the mean 15: on the second row the
  inner loop evaluates \<open>float(val)\<close> with \<open>val\<close> the list \<open>[10.0]\<close> (not the cell
  of the next row), which raises TypeError, and only ValueError is caught.
\<close>

theorem features_group_type_error:
  "parse_features dec_float
     [[''file,area\<newline>'', ''A.tif,10\<newline>'', ''A.tif,20\<newline>'']]
     [[(''file'', PStr ''/in/A.tif'')]] = Inl TypeError"
  by code_simp

lemma group_loop_second_row_type_error:
  assumes "line \<noteq> []" and "parse_row headers line = Inr np_line"
    and "map_of p_line ''file'' = Some f" and "map_of np_line ''file'' = Some f"
    and "(key, PList xs) \<in> set p_line"
  shows "group_loop to_float headers p_line (line # rest) = Inl TypeError"
  using assms by (simp add: group_body_list_type_error)

section \<open>Heatmap images (main, lines 269--279)\<close>

text \<open>\<open>str(n)\<close> of an integer, and the name of the tile of a width, height and level.\<close>

definition digit_char :: "nat \<Rightarrow> char" where
  "digit_char n = char_of (48 + n)"

fun str_nat :: "nat \<Rightarrow> string" where
  "str_nat n = (if n < 10 then [digit_char n] else str_nat (n div 10) @ [digit_char (n mod 10)])"

definition str_int :: "int \<Rightarrow> string" where
  "str_int i = (if i < 0 then CHR ''-'' # str_nat (nat (- i)) else str_nat (nat i))"

definition tile_name :: "int \<Rightarrow> int \<Rightarrow> int \<Rightarrow> string" where
  "tile_name w h l = str_int w @ ''_'' @ str_int h @ ''_'' @ str_int l @ ''.ome.tif''"

text \<open>
  A written tile: the X and Y given to the writer (Z, C and T are 1) and the pixel buffer,
  \<open>Y\<close> rows of \<open>X\<close> unsigned 8-bit pixels. The output directory is the list of its
  files, each a name and a tile, in the order in which they were written.
\<close>

datatype pixel_buffer = UInt8 "8 word list list" | Wide "int list list"

record tile =
  tile_X :: int
  tile_Y :: int
  tile_pixels :: pixel_buffer

type_synonym out_dir = "(string \<times> tile) list"

text \<open>
  \<open>np.ones((h,w,1,1,1),dtype=np.uint8)*l\<close>: a negative dimension raises ValueError.
  For a level from 0 to 255 the product is an unsigned 8-bit array holding the level. For
  any other level the result depends on the numpy at hand (an array of a wider integer
  type, or OverflowError); it is the parameter \<open>np_wide\<close>.
\<close>

definition np_ones_times ::
  "(int \<Rightarrow> int \<Rightarrow> int \<Rightarrow> error + pixel_buffer) \<Rightarrow> int \<Rightarrow> int \<Rightarrow> int \<Rightarrow> error + pixel_buffer" where
  "np_ones_times np_wide h w l =
     (if h < 0 \<or> w < 0 then Inl ValueError
      else if 0 \<le> l \<and> l \<le> 255
      then Inr (UInt8 (replicate (nat h) (replicate (nat w) (word_of_int l))))
      else np_wide h w l)"

definition write_tile ::
  "(int \<Rightarrow> int \<Rightarrow> int \<Rightarrow> error + pixel_buffer) \<Rightarrow> int \<Rightarrow> int \<Rightarrow> int \<Rightarrow> out_dir
     \<Rightarrow> error + out_dir" where
  "write_tile np_wide w h l out =
     (if map_of out (tile_name w h l) \<noteq> None then Inr out
      else (case np_ones_times np_wide h w l of
              Inl e \<Rightarrow> Inl e
            | Inr pixels \<Rightarrow>
                Inr (out @ [(tile_name w h l,
                             \<lparr>tile_X = w, tile_Y = h, tile_pixels = pixels\<rparr>)])))"

text \<open>The three nested loops over the widths, the heights and the levels.\<close>

fun gen_levels ::
  "(int \<Rightarrow> int \<Rightarrow> int \<Rightarrow> error + pixel_buffer) \<Rightarrow> int \<Rightarrow> int \<Rightarrow> int list \<Rightarrow> out_dir \<Rightarrow> error + out_dir" where
  "gen_levels np_wide w h [] out = Inr out"
| "gen_levels np_wide w h (l # ls) out =
     (case write_tile np_wide w h l out of
        Inl e \<Rightarrow> Inl e
      | Inr out' \<Rightarrow> gen_levels np_wide w h ls out')"

fun gen_heights ::
  "(int \<Rightarrow> int \<Rightarrow> int \<Rightarrow> error + pixel_buffer) \<Rightarrow> int \<Rightarrow> int list \<Rightarrow> int list \<Rightarrow> out_dir \<Rightarrow> error + out_dir" where
  "gen_heights np_wide w [] unique_levels out = Inr out"
| "gen_heights np_wide w (h # hs) unique_levels out =
     (case gen_levels np_wide w h unique_levels out of
        Inl e \<Rightarrow> Inl e
      | Inr out' \<Rightarrow> gen_heights np_wide w hs unique_levels out')"

fun generate_images ::
  "(int \<Rightarrow> int \<Rightarrow> int \<Rightarrow> error + pixel_buffer) \<Rightarrow> int list \<Rightarrow> int list \<Rightarrow> int list \<Rightarrow> out_dir \<Rightarrow> error + out_dir" where
  "generate_images np_wide [] heights unique_levels out = Inr out"
| "generate_images np_wide (w # ws) heights unique_levels out =
     (case gen_heights np_wide w heights unique_levels out of
        Inl e \<Rightarrow> Inl e
      | Inr out' \<Rightarrow> generate_images np_wide ws heights unique_levels out')"

declare str_nat.simps [simp del]

subsection \<open>Tile names are unambiguous\<close>

lemma of_char_digit_char: "d < 10 \<Longrightarrow> of_char (digit_char d) = (48 + d :: nat)"
  by (simp add: digit_char_def)

lemma digit_char_inj:
  assumes "a < 10" and "b < 10" and "digit_char a = digit_char b"
  shows "a = b"
proof -
  have "(of_char (digit_char a) :: nat) = of_char (digit_char b)"
    by (simp only: assms(3))
  then have "48 + a = 48 + b"
    by (simp only: of_char_digit_char [OF assms(1)] of_char_digit_char [OF assms(2)])
  then show ?thesis by simp
qed

lemma digit_char_not:
  assumes "d < 10" and "of_char c < (48 :: nat) \<or> (57 :: nat) < of_char c"
  shows "digit_char d \<noteq> c"
proof
  assume "digit_char d = c"
  then have "(of_char c :: nat) = of_char (digit_char d)" by simp
  also have "\<dots> = 48 + d" using assms(1) by (rule of_char_digit_char)
  finally show False using assms by linarith
qed

lemma str_nat_nonempty: "str_nat n \<noteq> []"
  by (subst str_nat.simps) simp

lemma str_nat_chars: "c \<in> set (str_nat n) \<Longrightarrow> \<exists>d<10. c = digit_char d"
proof (induction n rule: str_nat.induct)
  case (1 n)
  show ?case
  proof (cases "n < 10")
    case True
    with "1.prems" show ?thesis
      by (subst (asm) str_nat.simps) auto
  next
    case False
    with "1.prems" have "c \<in> set (str_nat (n div 10)) \<or> c = digit_char (n mod 10)"
      by (subst (asm) str_nat.simps) auto
    with "1.IH" [OF False] show ?thesis
      by (metis mod_less_divisor zero_less_numeral)
  qed
qed

lemma str_nat_inj: "str_nat n = str_nat m \<Longrightarrow> n = m"
proof (induction n arbitrary: m rule: str_nat.induct)
  case (1 n)
  show ?case
  proof (cases "n < 10")
    case n: True
    show ?thesis
    proof (cases "m < 10")
      case True
      with n "1.prems" have "digit_char n = digit_char m"
        by (simp add: str_nat.simps [of n] str_nat.simps [of m])
      with n True show ?thesis by (rule digit_char_inj)
    next
      case False
      with n "1.prems" str_nat_nonempty [of "m div 10"] show ?thesis
        by (simp add: str_nat.simps [of n] str_nat.simps [of m])
    qed
  next
    case n: False
    show ?thesis
    proof (cases "m < 10")
      case True
      with n "1.prems" str_nat_nonempty [of "n div 10"] show ?thesis
        by (simp add: str_nat.simps [of n] str_nat.simps [of m])
    next
      case False
      with n "1.prems" have "str_nat (n div 10) = str_nat (m div 10)"
        and d: "digit_char (n mod 10) = digit_char (m mod 10)"
        by (simp_all add: str_nat.simps [of n] str_nat.simps [of m])
      from "1.IH" [OF n this(1)] have "n div 10 = m div 10" .
      moreover from digit_char_inj [OF _ _ d] have "n mod 10 = m mod 10" by simp
      ultimately show ?thesis
        by (metis div_mult_mod_eq)
    qed
  qed
qed

lemma str_nat_no_sep: "CHR ''_'' \<notin> set (str_nat k) \<and> CHR ''-'' \<notin> set (str_nat k)"
proof -
  have "c \<notin> set (str_nat k)" if "of_char c < (48 :: nat) \<or> (57 :: nat) < of_char c" for c
  proof
    assume "c \<in> set (str_nat k)"
    from str_nat_chars [OF this] obtain d where "d < 10" and "c = digit_char d" by blast
    with digit_char_not [OF this(1) that] show False by simp
  qed
  from this [of "CHR ''_''"] this [of "CHR ''-''"] show ?thesis by simp
qed

lemma str_int_no_sep: "CHR ''_'' \<notin> set (str_int i)"
  using str_nat_no_sep by (simp add: str_int_def)

lemma str_int_inj: "str_int i = str_int j \<Longrightarrow> i = j"
proof -
  assume eq: "str_int i = str_int j"
  have hd: "CHR ''-'' # xs \<noteq> str_nat k" for k xs
    using str_nat_no_sep [of k] by (metis list.set_intros(1))
  show ?thesis
  proof (cases "i < 0")
    case i: True
    show ?thesis
    proof (cases "j < 0")
      case True
      with i eq have "str_nat (nat (- i)) = str_nat (nat (- j))"
        by (simp add: str_int_def)
      from str_nat_inj [OF this] i True show ?thesis by simp
    next
      case False
      with i eq hd [of "str_nat (nat (- i))" "nat j"] show ?thesis
        by (simp add: str_int_def)
    qed
  next
    case i: False
    show ?thesis
    proof (cases "j < 0")
      case True
      with i eq hd [of "str_nat (nat (- j))" "nat i"] show ?thesis
        by (simp add: str_int_def)
    next
      case False
      with i eq have "str_nat (nat i) = str_nat (nat j)"
        by (simp add: str_int_def)
      from str_nat_inj [OF this] i False show ?thesis by simp
    qed
  qed
qed

lemma sep_split:
  assumes "c \<notin> set a" and "c \<notin> set a'" and "a @ c # r = a' @ c # r'"
  shows "a = a' \<and> r = r'"
proof -
  have "takeWhile (\<lambda>x. x \<noteq> c) (a @ c # r) = a"
    using assms(1) by (induction a) auto
  moreover have "takeWhile (\<lambda>x. x \<noteq> c) (a' @ c # r') = a'"
    using assms(2) by (induction a') auto
  ultimately have "a = a'" using assms(3) by simp
  with assms(3) show ?thesis by simp
qed

lemma tile_name_inj:
  assumes "tile_name w h l = tile_name w' h' l'"
  shows "w = w' \<and> h = h' \<and> l = l'"
proof -
  from assms have
    "str_int w @ CHR ''_'' # (str_int h @ CHR ''_'' # str_int l @ ''.ome.tif'')
       = str_int w' @ CHR ''_'' # (str_int h' @ CHR ''_'' # str_int l' @ ''.ome.tif'')"
    by (simp add: tile_name_def)
  from sep_split [OF str_int_no_sep str_int_no_sep this] have
    w: "str_int w = str_int w'" and
    "str_int h @ CHR ''_'' # str_int l @ ''.ome.tif'' = str_int h' @ CHR ''_'' # str_int l' @ ''.ome.tif''"
    by simp_all
  from sep_split [OF str_int_no_sep str_int_no_sep this(2)] have
    h: "str_int h = str_int h'" and "str_int l @ ''.ome.tif'' = str_int l' @ ''.ome.tif''"
    by simp_all
  then have "str_int l = str_int l'" by simp
  with w h show ?thesis by (simp add: str_int_inj)
qed

subsection \<open>The run over the combinations\<close>

text \<open>
  The three loops visit the triples of a width, a height and a level in one fixed order;
  \<open>gen_triples\<close> is the same run over the list of the triples.
\<close>

fun gen_triples ::
  "(int \<Rightarrow> int \<Rightarrow> int \<Rightarrow> error + pixel_buffer) \<Rightarrow> (int \<times> int \<times> int) list \<Rightarrow> out_dir \<Rightarrow> error + out_dir" where
  "gen_triples np_wide [] out = Inr out"
| "gen_triples np_wide ((w, h, l) # ts) out =
     (case write_tile np_wide w h l out of
        Inl e \<Rightarrow> Inl e
      | Inr out' \<Rightarrow> gen_triples np_wide ts out')"

definition triples :: "int list \<Rightarrow> int list \<Rightarrow> int list \<Rightarrow> (int \<times> int \<times> int) list" where
  "triples ws hs ls = concat (map (\<lambda>w. concat (map (\<lambda>h. map (\<lambda>l. (w, h, l)) ls) hs)) ws)"

lemma gen_triples_append:
  "gen_triples np_wide (ts @ us) out =
     (case gen_triples np_wide ts out of Inl e \<Rightarrow> Inl e | Inr out' \<Rightarrow> gen_triples np_wide us out')"
  by (induction ts arbitrary: out) (auto split: sum.splits)

lemma gen_levels_triples: "gen_levels np_wide w h ls out = gen_triples np_wide (map (\<lambda>l. (w, h, l)) ls) out"
  by (induction ls arbitrary: out) (auto split: sum.splits)

lemma gen_heights_triples:
  "gen_heights np_wide w hs ls out = gen_triples np_wide (concat (map (\<lambda>h. map (\<lambda>l. (w, h, l)) ls) hs)) out"
  by (induction hs arbitrary: out)
     (auto simp: gen_triples_append gen_levels_triples split: sum.splits)

lemma generate_images_triples:
  "generate_images np_wide ws hs ls out = gen_triples np_wide (triples ws hs ls) out"
  by (induction ws arbitrary: out)
     (auto simp: triples_def gen_triples_append gen_heights_triples split: sum.splits)

lemma set_triples: "set (triples ws hs ls) = set ws \<times> set hs \<times> set ls"
  by (auto simp: triples_def)

lemma write_tile_cases:
  assumes "write_tile np_wide w h l out = Inr out'"
  shows "(map_of out (tile_name w h l) \<noteq> None \<and> out' = out) \<or>
         (map_of out (tile_name w h l) = None \<and>
          (\<exists>px. np_ones_times np_wide h w l = Inr px \<and>
             out' = out @ [(tile_name w h l, \<lparr>tile_X = w, tile_Y = h, tile_pixels = px\<rparr>)]))"
  using assms
  by (auto simp: write_tile_def split: if_splits sum.splits)

lemma write_tile_keeps:
  "write_tile np_wide w h l out = Inr out' \<Longrightarrow> map_of out n = Some t \<Longrightarrow> map_of out' n = Some t"
  by (drule write_tile_cases) (auto simp: map_add_def)

lemma write_tile_present:
  "write_tile np_wide w h l out = Inr out' \<Longrightarrow> map_of out' (tile_name w h l) \<noteq> None"
  by (drule write_tile_cases) (auto simp: map_add_def)

lemma write_tile_origin:
  "write_tile np_wide w h l out = Inr out' \<Longrightarrow> map_of out' n = Some t \<Longrightarrow>
     map_of out n = Some t \<or>
     (map_of out n = None \<and> n = tile_name w h l \<and>
      (\<exists>px. np_ones_times np_wide h w l = Inr px \<and>
         t = \<lparr>tile_X = w, tile_Y = h, tile_pixels = px\<rparr>))"
  by (drule write_tile_cases) (auto simp: map_add_def split: option.splits if_splits)

lemma write_tile_distinct:
  "write_tile np_wide w h l out = Inr out' \<Longrightarrow> distinct (map fst out) \<Longrightarrow> distinct (map fst out')"
  by (drule write_tile_cases) (auto simp: map_of_eq_None_iff)

lemma write_tile_names:
  "write_tile np_wide w h l out = Inr out' \<Longrightarrow> fst ` set out' = insert (tile_name w h l) (fst ` set out)"
  by (drule write_tile_cases) (auto simp: map_of_eq_None_iff)

lemma gen_triples_keeps:
  "gen_triples np_wide ts out = Inr out' \<Longrightarrow> map_of out n = Some t \<Longrightarrow> map_of out' n = Some t"
proof (induction ts arbitrary: out)
  case Nil
  then show ?case by simp
next
  case (Cons p ts)
  obtain w h l where p: "p = (w, h, l)" by (cases p)
  with Cons.prems obtain out1 where
    one: "write_tile np_wide w h l out = Inr out1" and run: "gen_triples np_wide ts out1 = Inr out'"
    by (auto split: sum.splits)
  from write_tile_keeps [OF one Cons.prems(2)] have "map_of out1 n = Some t" .
  then show ?case by (rule Cons.IH [OF run])
qed

lemma gen_triples_present:
  "gen_triples np_wide ts out = Inr out' \<Longrightarrow> (w, h, l) \<in> set ts \<Longrightarrow>
     map_of out' (tile_name w h l) \<noteq> None"
proof (induction ts arbitrary: out)
  case Nil
  then show ?case by simp
next
  case (Cons p ts)
  obtain w1 h1 l1 where p: "p = (w1, h1, l1)" by (cases p)
  with Cons.prems obtain out1 where
    one: "write_tile np_wide w1 h1 l1 out = Inr out1" and run: "gen_triples np_wide ts out1 = Inr out'"
    by (auto split: sum.splits)
  show ?case
  proof (cases "(w, h, l) = p")
    case True
    with p write_tile_present [OF one] obtain t where "map_of out1 (tile_name w h l) = Some t"
      by auto
    from gen_triples_keeps [OF run this] show ?thesis by simp
  next
    case False
    with Cons.prems have "(w, h, l) \<in> set ts" by simp
    from Cons.IH [OF run this] show ?thesis .
  qed
qed

lemma gen_triples_origin:
  "gen_triples np_wide ts out = Inr out' \<Longrightarrow> map_of out' n = Some t \<Longrightarrow>
     map_of out n = Some t \<or>
     (map_of out n = None \<and>
      (\<exists>w h l px. (w, h, l) \<in> set ts \<and> n = tile_name w h l \<and>
         np_ones_times np_wide h w l = Inr px \<and>
         t = \<lparr>tile_X = w, tile_Y = h, tile_pixels = px\<rparr>))"
proof (induction ts arbitrary: out)
  case Nil
  then show ?case by simp
next
  case (Cons p ts)
  obtain w1 h1 l1 where p: "p = (w1, h1, l1)" by (cases p)
  with Cons.prems obtain out1 where
    one: "write_tile np_wide w1 h1 l1 out = Inr out1" and run: "gen_triples np_wide ts out1 = Inr out'"
    by (auto split: sum.splits)
  from Cons.IH [OF run Cons.prems(2)] show ?case
  proof
    assume "map_of out1 n = Some t"
    from write_tile_origin [OF one this] p show ?thesis by auto
  next
    assume a: "map_of out1 n = None \<and>
      (\<exists>w h l px. (w, h, l) \<in> set ts \<and> n = tile_name w h l \<and>
         np_ones_times np_wide h w l = Inr px \<and>
         t = \<lparr>tile_X = w, tile_Y = h, tile_pixels = px\<rparr>)"
    have "map_of out n = None"
    proof (cases "map_of out n")
      case None
      then show ?thesis .
    next
      case (Some t')
      from write_tile_keeps [OF one this] a show ?thesis by simp
    qed
    with a show ?thesis by auto
  qed
qed

lemma gen_triples_distinct:
  "gen_triples np_wide ts out = Inr out' \<Longrightarrow> distinct (map fst out) \<Longrightarrow> distinct (map fst out')"
proof (induction ts arbitrary: out)
  case Nil
  then show ?case by simp
next
  case (Cons p ts)
  obtain w h l where p: "p = (w, h, l)" by (cases p)
  with Cons.prems obtain out1 where
    one: "write_tile np_wide w h l out = Inr out1" and run: "gen_triples np_wide ts out1 = Inr out'"
    by (auto split: sum.splits)
  from Cons.IH [OF run write_tile_distinct [OF one Cons.prems(2)]] show ?case .
qed

lemma gen_triples_names:
  "gen_triples np_wide ts out = Inr out' \<Longrightarrow>
     fst ` set out' = fst ` set out \<union> (\<lambda>(w, h, l). tile_name w h l) ` set ts"
proof (induction ts arbitrary: out)
  case Nil
  then show ?case by simp
next
  case (Cons p ts)
  obtain w h l where p: "p = (w, h, l)" by (cases p)
  with Cons.prems obtain out1 where
    one: "write_tile np_wide w h l out = Inr out1" and run: "gen_triples np_wide ts out1 = Inr out'"
    by (auto split: sum.splits)
  from Cons.IH [OF run] write_tile_names [OF one] p show ?case by auto
qed

lemma gen_triples_all_present:
  "\<forall>(w, h, l)\<in>set ts. map_of out (tile_name w h l) \<noteq> None \<Longrightarrow> gen_triples np_wide ts out = Inr out"
  by (induction ts) (auto simp: write_tile_def)

lemma gen_triples_idem:
  assumes "gen_triples np_wide ts out = Inr out'"
  shows "gen_triples np_wide ts out' = Inr out'"
  using gen_triples_present [OF assms] by (intro gen_triples_all_present) auto

lemma np_ones_times_level:
  "np_ones_times np_wide h w l = Inr px \<Longrightarrow> 0 \<le> l \<Longrightarrow> l \<le> 255 \<Longrightarrow>
     px = UInt8 (replicate (nat h) (replicate (nat w) (word_of_int l)))"
  by (auto simp: np_ones_times_def split: if_splits)

lemma uint8_level: "0 \<le> l \<Longrightarrow> l \<le> 255 \<Longrightarrow> uint (word_of_int l :: 8 word) = l"
  by (simp add: uint_word_of_int_eq take_bit_int_eq_self)

text \<open>
  Claim C4. Image generation visits every combination of a width, a height and a level.
  With levels from 0 to 255: for a combination whose file exists already the file is left
  as it is; for any other it writes one tile of that width and height, every pixel the
  level as an unsigned 8-bit value. Every file that was there before keeps its content,
  the directory holds afterwards the files it held and the files of the combinations and
  no others, no name occurs twice, and a second run over the result changes nothing.
\<close>

theorem heatmap_generation:
  assumes run: "generate_images np_wide widths heights unique_levels out = Inr out'"
    and names: "distinct (map fst out)"
    and levels: "\<forall>l\<in>set unique_levels. 0 \<le> l \<and> l \<le> 255"
  shows "(\<forall>w\<in>set widths. \<forall>h\<in>set heights. \<forall>l\<in>set unique_levels.
            (case map_of out (tile_name w h l) of
               Some t \<Rightarrow> map_of out' (tile_name w h l) = Some t
             | None \<Rightarrow>
                 map_of out' (tile_name w h l)
                   = Some \<lparr>tile_X = w, tile_Y = h,
                           tile_pixels =
                             UInt8 (replicate (nat h) (replicate (nat w) (word_of_int l)))\<rparr> \<and>
                 uint (word_of_int l :: 8 word) = l)) \<and>
         (\<forall>n t. map_of out n = Some t \<longrightarrow> map_of out' n = Some t) \<and>
         fst ` set out' = fst ` set out \<union>
           {tile_name w h l | w h l. w \<in> set widths \<and> h \<in> set heights \<and> l \<in> set unique_levels} \<and>
         distinct (map fst out') \<and>
         generate_images np_wide widths heights unique_levels out' = Inr out'"
proof -
  let ?ts = "triples widths heights unique_levels"
  from run have gen: "gen_triples np_wide ?ts out = Inr out'"
    by (simp add: generate_images_triples)
  have tiles: "case map_of out (tile_name w h l) of
       Some t \<Rightarrow> map_of out' (tile_name w h l) = Some t
     | None \<Rightarrow>
         map_of out' (tile_name w h l)
           = Some \<lparr>tile_X = w, tile_Y = h,
                   tile_pixels =
                     UInt8 (replicate (nat h) (replicate (nat w) (word_of_int l)))\<rparr> \<and>
         uint (word_of_int l :: 8 word) = l"
    if "w \<in> set widths" and "h \<in> set heights" and "l \<in> set unique_levels" for w h l
  proof (cases "map_of out (tile_name w h l)")
    case (Some t)
    from gen_triples_keeps [OF gen this] Some show ?thesis by simp
  next
    case None
    from that levels have l: "0 \<le> l" "l \<le> 255" by auto
    from that have "(w, h, l) \<in> set ?ts" by (simp add: set_triples)
    from gen_triples_present [OF gen this] obtain t where
      t: "map_of out' (tile_name w h l) = Some t" by auto
    from gen_triples_origin [OF gen t] None obtain w' h' l' px where
      "tile_name w h l = tile_name w' h' l'" and "np_ones_times np_wide h' w' l' = Inr px" and
      "t = \<lparr>tile_X = w', tile_Y = h', tile_pixels = px\<rparr>"
      by auto
    with tile_name_inj [of w h l w' h' l'] have
      "np_ones_times np_wide h w l = Inr px" and "t = \<lparr>tile_X = w, tile_Y = h, tile_pixels = px\<rparr>"
      by simp_all
    with np_ones_times_level [OF this(1) l] t None l show ?thesis
      by (simp add: uint8_level)
  qed
  have keeps: "\<forall>n t. map_of out n = Some t \<longrightarrow> map_of out' n = Some t"
    using gen_triples_keeps [OF gen] by blast
  have "(\<lambda>(w, h, l). tile_name w h l) ` set ?ts
          = {tile_name w h l | w h l. w \<in> set widths \<and> h \<in> set heights \<and> l \<in> set unique_levels}"
    unfolding set_triples by force
  with gen_triples_names [OF gen] have files:
    "fst ` set out' = fst ` set out \<union>
       {tile_name w h l | w h l. w \<in> set widths \<and> h \<in> set heights \<and> l \<in> set unique_levels}"
    by simp
  from gen_triples_idem [OF gen] have idem:
    "generate_images np_wide widths heights unique_levels out' = Inr out'"
    by (simp add: generate_images_triples)
  from tiles keeps files gen_triples_distinct [OF gen names] idem show ?thesis
    by blast
qed

theorem heatmap_generation_witness:
  "generate_images (\<lambda>h w l. Inl OverflowError) [4] [2] [0, 128]
     [(''4_2_0.ome.tif'',
       \<lparr>tile_X = 4, tile_Y = 2, tile_pixels = UInt8 [[7, 7, 7, 7], [7, 7, 7, 7]]\<rparr>)]
   = Inr [(''4_2_0.ome.tif'',
           \<lparr>tile_X = 4, tile_Y = 2, tile_pixels = UInt8 [[7, 7, 7, 7], [7, 7, 7, 7]]\<rparr>),
          (''4_2_128.ome.tif'',
           \<lparr>tile_X = 4, tile_Y = 2,
            tile_pixels = UInt8 [[128, 128, 128, 128], [128, 128, 128, 128]]\<rparr>)] \<and>
   distinct (map fst
     [(''4_2_0.ome.tif'',
       \<lparr>tile_X = 4, tile_Y = 2, tile_pixels = UInt8 [[7, 7, 7, 7], [7, 7, 7, 7]]\<rparr>)]) \<and>
   (0 :: int) \<le> 0 \<and> (0 :: int) \<le> 255 \<and> (0 :: int) \<le> 128 \<and> (128 :: int) \<le> 255 \<and>
   generate_images (\<lambda>h w l. Inl OverflowError) [4] [2] [0, 128]
     [(''4_2_0.ome.tif'',
       \<lparr>tile_X = 4, tile_Y = 2, tile_pixels = UInt8 [[7, 7, 7, 7], [7, 7, 7, 7]]\<rparr>),
      (''4_2_128.ome.tif'',
       \<lparr>tile_X = 4, tile_Y = 2,
        tile_pixels = UInt8 [[128, 128, 128, 128], [128, 128, 128, 128]]\<rparr>)]
   = Inr [(''4_2_0.ome.tif'',
           \<lparr>tile_X = 4, tile_Y = 2, tile_pixels = UInt8 [[7, 7, 7, 7], [7, 7, 7, 7]]\<rparr>),
          (''4_2_128.ome.tif'',
           \<lparr>tile_X = 4, tile_Y = 2,
            tile_pixels = UInt8 [[128, 128, 128, 128], [128, 128, 128, 128]]\<rparr>)]"
proof -
  have run: "generate_images (\<lambda>h w l. Inl OverflowError) [4] [2] [0, 128]
     [(''4_2_0.ome.tif'',
       \<lparr>tile_X = 4, tile_Y = 2, tile_pixels = UInt8 [[7, 7, 7, 7], [7, 7, 7, 7]]\<rparr>)]
   = Inr [(''4_2_0.ome.tif'',
           \<lparr>tile_X = 4, tile_Y = 2, tile_pixels = UInt8 [[7, 7, 7, 7], [7, 7, 7, 7]]\<rparr>),
          (''4_2_128.ome.tif'',
           \<lparr>tile_X = 4, tile_Y = 2,
            tile_pixels = UInt8 [[128, 128, 128, 128], [128, 128, 128, 128]]\<rparr>)]"
    by code_simp
  have names: "distinct (map fst
     [(''4_2_0.ome.tif'',
       \<lparr>tile_X = 4, tile_Y = 2, tile_pixels = UInt8 [[7, 7, 7, 7], [7, 7, 7, 7]]\<rparr>)])"
    by simp
  have levels: "\<forall>l\<in>set [0, 128 :: int]. 0 \<le> l \<and> l \<le> 255"
    by simp
  from heatmap_generation [OF run names levels] show ?thesis
    using run names by simp
qed

section \<open>Output stitching vectors (main, lines 285--305)\<close>

text \<open>
  \<open>v == line\<close> for the integer \<open>line\<close>: an integer or a float of the same value.
\<close>

fun py_eq_int :: "pyval \<Rightarrow> int \<Rightarrow> bool" where
  "py_eq_int (PInt n) line = (n = line)"
| "py_eq_int (PFloat x) line = (x = Fin (of_int line))"
| "py_eq_int (PStr s) line = False"
| "py_eq_int (PList xs) line = False"

text \<open>
  The loop \<open>for f in fp.iterate(): if f['line'] == line: break\<close>: the record that
  \<open>f\<close> is bound to afterwards, the first one with that line index or else the last
  one of the index; None when the index is empty and the loop binds nothing. A record
  without the key raises KeyError when the scan reaches it.
\<close>

fun scan_line :: "pydict list \<Rightarrow> int \<Rightarrow> error + pydict option" where
  "scan_line [] line = Inr None"
| "scan_line (f # fs) line =
     (case map_of f ''line'' of
        None \<Rightarrow> Inl KeyError
      | Some v \<Rightarrow>
          if py_eq_int v line then Inr (Some f)
          else if fs = [] then Inr (Some f)
          else scan_line fs line)"

text \<open>
  \<open>'{}'.format(v)\<close>: a string as it is, an integer in decimal; the text of a float is a
  parameter \<open>float_str\<close> of the model.
\<close>

fun join_comma :: "string list \<Rightarrow> string" where
  "join_comma [] = []"
| "join_comma [s] = s"
| "join_comma (s # t # ss) = s @ '', '' @ join_comma (t # ss)"

fun py_str :: "(pyfloat \<Rightarrow> string) \<Rightarrow> pyval \<Rightarrow> string" where
  "py_str float_str (PStr s) = s"
| "py_str float_str (PInt n) = str_int n"
| "py_str float_str (PFloat x) = float_str x"
| "py_str float_str (PList xs) = ''['' @ join_comma (map float_str xs) @ '']''"

definition py_get :: "pydict \<Rightarrow> string \<Rightarrow> error + pyval" where
  "py_get d k = (case map_of d k of None \<Rightarrow> Inl KeyError | Some v \<Rightarrow> Inr v)"

text \<open>
  The line written for a record \<open>f\<close> and a feature: the format string of line 297 with
  the tile name \<open>'{}_{}_{}.ome.tif'.format(f['width'],f['height'],f[feat])\<close> for the
  file and the record's own correlation, position and grid fields.
\<close>

definition stitch_line_of :: "(pyfloat \<Rightarrow> string) \<Rightarrow> pydict \<Rightarrow> string \<Rightarrow> error + string" where
  "stitch_line_of float_str f feat =
     (case py_get f ''width'' of Inl e \<Rightarrow> Inl e | Inr w \<Rightarrow>
      case py_get f ''height'' of Inl e \<Rightarrow> Inl e | Inr h \<Rightarrow>
      case py_get f feat of Inl e \<Rightarrow> Inl e | Inr l \<Rightarrow>
      case py_get f ''correlation'' of Inl e \<Rightarrow> Inl e | Inr corr \<Rightarrow>
      case py_get f ''posX'' of Inl e \<Rightarrow> Inl e | Inr posX \<Rightarrow>
      case py_get f ''posY'' of Inl e \<Rightarrow> Inl e | Inr posY \<Rightarrow>
      case py_get f ''gridX'' of Inl e \<Rightarrow> Inl e | Inr gridX \<Rightarrow>
      case py_get f ''gridY'' of Inl e \<Rightarrow> Inl e | Inr gridY \<Rightarrow>
        Inr (''file: '' @ (py_str float_str w @ ''_'' @ py_str float_str h @ ''_''
                @ py_str float_str l @ ''.ome.tif'')
             @ ''; corr: '' @ py_str float_str corr
             @ ''; position: ('' @ py_str float_str posX @ '', '' @ py_str float_str posY
             @ ''); grid: ('' @ py_str float_str gridX @ '', '' @ py_str float_str gridY
             @ '');'' @ [CHR 0x0A]))"

text \<open>A record whose line index is at least \<open>line\<close>; it bounds the loop below.\<close>

definition line_ge :: "int \<Rightarrow> pydict \<Rightarrow> bool" where
  "line_ge line f =
     (case map_of f ''line'' of
        Some (PInt n) \<Rightarrow> line \<le> n
      | Some (PFloat (Fin x)) \<Rightarrow> of_int line \<le> x
      | _ \<Rightarrow> False)"

lemma scan_line_mem: "scan_line fp line = Inr (Some f) \<Longrightarrow> f \<in> set fp"
  by (induction fp) (auto split: option.splits if_splits)

lemma filter_length_less:
  "x \<in> set xs \<Longrightarrow> P x \<Longrightarrow> \<not> Q x \<Longrightarrow> (\<And>y. Q y \<Longrightarrow> P y) \<Longrightarrow>
     length (filter Q xs) < length (filter P xs)"
proof (induction xs)
  case Nil
  then show ?case by simp
next
  case (Cons a xs)
  have le: "length (filter Q xs) \<le> length (filter P xs)"
    using Cons.prems(4) by (induction xs) auto
  show ?case
  proof (cases "x = a")
    case True
    with Cons.prems le show ?thesis by simp
  next
    case False
    with Cons have "length (filter Q xs) < length (filter P xs)" by simp
    with Cons.prems(4) show ?thesis by auto
  qed
qed

lemma line_ge_step:
  assumes "f \<in> set fp" and "map_of f ''line'' = Some v" and "py_eq_int v line"
  shows "length (filter (line_ge (line + 1)) fp) < length (filter (line_ge line) fp)"
proof (rule filter_length_less [OF assms(1)])
  show "line_ge line f"
    using assms(2,3) by (cases v) (auto simp: line_ge_def)
  show "\<not> line_ge (line + 1) f"
    using assms(2,3) by (cases v) (auto simp: line_ge_def)
  show "line_ge line y" if "line_ge (line + 1) y" for y
  proof -
    have "(of_int line :: rat) \<le> of_int (line + 1)" by simp
    with that show ?thesis
      by (auto simp: line_ge_def split: option.splits pyval.splits pyfloat.splits)
  qed
qed

text \<open>
  The \<open>while True\<close> loop of one feature: \<open>written\<close> collects the lines written to
  the file. An empty index leaves \<open>f\<close> unbound, and reading it raises NameError.
\<close>

function write_lines ::
  "(pyfloat \<Rightarrow> string) \<Rightarrow> pydict list \<Rightarrow> string \<Rightarrow> int \<Rightarrow> string list \<Rightarrow> error + string list" where
  "write_lines float_str fp feat line written =
     (case scan_line fp line of
        Inl e \<Rightarrow> Inl e
      | Inr None \<Rightarrow> Inl NameError
      | Inr (Some f) \<Rightarrow>
          (case map_of f ''line'' of
             None \<Rightarrow> Inl KeyError
           | Some v \<Rightarrow>
               if py_eq_int v line
               then (case stitch_line_of float_str f feat of
                       Inl e \<Rightarrow> Inl e
                     | Inr s \<Rightarrow> write_lines float_str fp feat (line + 1) (written @ [s]))
               else Inr written))"
  by pat_completeness auto
termination
  by (relation "measure (\<lambda>(float_str, fp, feat, line, written). length (filter (line_ge line) fp))")
     (auto dest: scan_line_mem intro: line_ge_step)

declare write_lines.simps [simp del]

text \<open>
  The loop \<open>for num,feat in enumerate(feature_list)\<close>: one file
  \<open>img-global-positions-<num+1>.txt\<close> for each feature.
\<close>

fun write_vectors ::
  "(pyfloat \<Rightarrow> string) \<Rightarrow> pydict list \<Rightarrow> string list \<Rightarrow> nat
     \<Rightarrow> error + (string \<times> string list) list" where
  "write_vectors float_str fp [] num = Inr []"
| "write_vectors float_str fp (feat # feats) num =
     (case write_lines float_str fp feat 0 [] of
        Inl e \<Rightarrow> Inl e
      | Inr written \<Rightarrow>
          (case write_vectors float_str fp feats (Suc num) of
             Inl e \<Rightarrow> Inl e
           | Inr files \<Rightarrow>
               Inr ((''img-global-positions-'' @ str_int (int num + 1) @ ''.txt'', written)
                    # files)))"

subsection \<open>Properties of the output vectors\<close>

text \<open>A record that carries the line index \<open>line\<close>.\<close>

definition has_line :: "int \<Rightarrow> pydict \<Rightarrow> bool" where
  "has_line line f = (case map_of f ''line'' of None \<Rightarrow> False | Some v \<Rightarrow> py_eq_int v line)"

lemma scan_line_find:
  "scan_line fp line = Inr (Some f) \<Longrightarrow>
     (if has_line line f then find (has_line line) fp = Some f
      else find (has_line line) fp = None)"
proof (induction fp)
  case Nil
  then show ?case by simp
next
  case (Cons g gs)
  then obtain v where v: "map_of g ''line'' = Some v"
    by (auto split: option.splits)
  show ?case
  proof (cases "py_eq_int v line")
    case True
    with v have "has_line line g" by (simp add: has_line_def)
    moreover from Cons.prems v True have "f = g" by simp
    ultimately show ?thesis by simp
  next
    case False
    with v have ng: "\<not> has_line line g" by (simp add: has_line_def)
    show ?thesis
    proof (cases "gs = []")
      case True
      with Cons.prems v False have "f = g" by simp
      with ng True show ?thesis by simp
    next
      case gs: False
      with Cons.prems v False have "scan_line gs line = Inr (Some f)" by simp
      from Cons.IH [OF this] ng show ?thesis by simp
    qed
  qed
qed

lemma write_lines_inv:
  "write_lines float_str fp feat n acc = Inr out \<Longrightarrow>
     \<exists>new. out = acc @ new \<and>
       (\<forall>k<length new. \<exists>f. find (has_line (n + int k)) fp = Some f \<and>
          stitch_line_of float_str f feat = Inr (new ! k)) \<and>
       find (has_line (n + int (length new))) fp = None"
proof (induction float_str fp feat n acc rule: write_lines.induct)
  case (1 float_str fp feat line written)
  from "1.prems" obtain f v where
    scan: "scan_line fp line = Inr (Some f)" and v: "map_of f ''line'' = Some v"
    by (subst (asm) write_lines.simps) (auto split: sum.splits option.splits)
  show ?case
  proof (cases "py_eq_int v line")
    case False
    with "1.prems" scan v have "out = written"
      by (subst (asm) write_lines.simps) simp
    moreover from scan_line_find [OF scan] v False have "find (has_line line) fp = None"
      by (simp add: has_line_def)
    ultimately show ?thesis by simp
  next
    case True
    with "1.prems" scan v obtain s where
      s: "stitch_line_of float_str f feat = Inr s" and
      run: "write_lines float_str fp feat (line + 1) (written @ [s]) = Inr out"
      by (subst (asm) write_lines.simps) (auto split: sum.splits)
    from "1.IH" [OF scan refl v True s run] obtain new where
      out: "out = (written @ [s]) @ new" and
      each: "\<forall>k<length new. \<exists>f. find (has_line (line + 1 + int k)) fp = Some f \<and>
               stitch_line_of float_str f feat = Inr (new ! k)" and
      stop: "find (has_line (line + 1 + int (length new))) fp = None"
      by blast
    from scan_line_find [OF scan] v True have first: "find (has_line line) fp = Some f"
      by (simp add: has_line_def)
    have "\<exists>g. find (has_line (line + int k)) fp = Some g \<and>
            stitch_line_of float_str g feat = Inr ((s # new) ! k)"
      if "k < length (s # new)" for k
    proof (cases k)
      case 0
      with first s show ?thesis by simp
    next
      case (Suc j)
      with that have "j < length new" by simp
      with each obtain g where
        g: "find (has_line (line + 1 + int j)) fp = Some g"
          "stitch_line_of float_str g feat = Inr (new ! j)"
        by blast
      have "line + int (Suc j) = line + 1 + int j" by simp
      with g(1) have "find (has_line (line + int (Suc j))) fp = Some g" by (simp only:)
      moreover have "(s # new) ! Suc j = new ! j" by simp
      ultimately show ?thesis using g(2) Suc by metis
    qed
    moreover have "find (has_line (line + int (length (s # new)))) fp = None"
    proof -
      have "line + int (length (s # new)) = line + 1 + int (length new)" by simp
      with stop show ?thesis by (simp only:)
    qed
    moreover from out have "out = written @ (s # new)" by simp
    ultimately show ?thesis by blast
  qed
qed

lemma stitch_line_of_Inr:
  assumes "stitch_line_of float_str f feat = Inr s"
  shows "\<exists>w h l corr posX posY gridX gridY.
           map_of f ''width'' = Some w \<and> map_of f ''height'' = Some h \<and> map_of f feat = Some l \<and>
           map_of f ''correlation'' = Some corr \<and> map_of f ''posX'' = Some posX \<and>
           map_of f ''posY'' = Some posY \<and> map_of f ''gridX'' = Some gridX \<and>
           map_of f ''gridY'' = Some gridY \<and>
           s = ''file: '' @ py_str float_str w @ ''_'' @ py_str float_str h @ ''_''
                 @ py_str float_str l @ ''.ome.tif''
               @ ''; corr: '' @ py_str float_str corr
               @ ''; position: ('' @ py_str float_str posX @ '', '' @ py_str float_str posY
               @ ''); grid: ('' @ py_str float_str gridX @ '', '' @ py_str float_str gridY
               @ '');'' @ [CHR 0x0A]"
  using assms
  by (auto simp: stitch_line_of_def py_get_def split: option.splits)

lemma write_vectors_inv:
  "write_vectors float_str fp feats num = Inr files \<Longrightarrow>
     length files = length feats \<and>
     (\<forall>j<length feats.
        fst (files ! j) = ''img-global-positions-'' @ str_int (int (num + j) + 1) @ ''.txt'' \<and>
        write_lines float_str fp (feats ! j) 0 [] = Inr (snd (files ! j)))"
proof (induction feats arbitrary: num files)
  case Nil
  then show ?case by simp
next
  case (Cons feat feats)
  from Cons.prems obtain written rest where
    one: "write_lines float_str fp feat 0 [] = Inr written" and
    run: "write_vectors float_str fp feats (Suc num) = Inr rest" and
    files: "files = (''img-global-positions-'' @ str_int (int num + 1) @ ''.txt'', written) # rest"
    by (auto split: sum.splits)
  from Cons.IH [OF run] have
    len: "length rest = length feats" and
    each: "\<forall>j<length feats.
        fst (rest ! j) = ''img-global-positions-'' @ str_int (int (Suc num + j) + 1) @ ''.txt'' \<and>
        write_lines float_str fp (feats ! j) 0 [] = Inr (snd (rest ! j))"
    by simp_all
  have "fst (files ! j) = ''img-global-positions-'' @ str_int (int (num + j) + 1) @ ''.txt'' \<and>
        write_lines float_str fp ((feat # feats) ! j) 0 [] = Inr (snd (files ! j))"
    if "j < length (feat # feats)" for j
  proof (cases j)
    case 0
    with one files show ?thesis by simp
  next
    case (Suc i)
    with that have "i < length feats" by simp
    with each have
      "fst (rest ! i) = ''img-global-positions-'' @ str_int (int (Suc num + i) + 1) @ ''.txt''"
      "write_lines float_str fp (feats ! i) 0 [] = Inr (snd (rest ! i))"
      by simp_all
    moreover have "Suc num + i = num + Suc i" by simp
    ultimately show ?thesis using Suc files by (simp only: nth_Cons_Suc)
  qed
  with len files show ?case by simp
qed

text \<open>
  Claim C6. When the writer returns, it has written one file for each feature, the
  \<open>j\<close>-th (counting from 0) named \<open>img-global-positions-<j+1>.txt\<close>. In the file of a
  feature the \<open>k\<close>-th line (counting from 0) comes from the first record of the index
  whose line index is \<open>k\<close>, so the lines follow the line indices 0, 1, 2, ...: the line is
  the stitching line with that record's correlation, position and grid fields and, as
  file, the tile name made of the record's width, height and value for the feature; and
  no record has the line index that would come next.
\<close>

theorem output_vector_lines:
  assumes "write_vectors float_str fp feats 0 = Inr files"
  shows "length files = length feats \<and>
         (\<forall>j<length feats.
            fst (files ! j) = ''img-global-positions-'' @ str_int (int j + 1) @ ''.txt'' \<and>
            (\<forall>k<length (snd (files ! j)). \<exists>f w h l corr posX posY gridX gridY.
               find (has_line (int k)) fp = Some f \<and>
               map_of f ''width'' = Some w \<and> map_of f ''height'' = Some h \<and>
               map_of f (feats ! j) = Some l \<and> map_of f ''correlation'' = Some corr \<and>
               map_of f ''posX'' = Some posX \<and> map_of f ''posY'' = Some posY \<and>
               map_of f ''gridX'' = Some gridX \<and> map_of f ''gridY'' = Some gridY \<and>
               snd (files ! j) ! k
                 = ''file: '' @ py_str float_str w @ ''_'' @ py_str float_str h @ ''_''
                     @ py_str float_str l @ ''.ome.tif''
                   @ ''; corr: '' @ py_str float_str corr
                   @ ''; position: ('' @ py_str float_str posX @ '', '' @ py_str float_str posY
                   @ ''); grid: ('' @ py_str float_str gridX @ '', '' @ py_str float_str gridY
                   @ '');'' @ [CHR 0x0A]) \<and>
            find (has_line (int (length (snd (files ! j))))) fp = None)"
proof -
  from write_vectors_inv [OF assms] have
    len: "length files = length feats" and
    all: "\<forall>j<length feats.
        fst (files ! j) = ''img-global-positions-'' @ str_int (int (0 + j) + 1) @ ''.txt'' \<and>
        write_lines float_str fp (feats ! j) 0 [] = Inr (snd (files ! j))"
    by blast+
  have "fst (files ! j) = ''img-global-positions-'' @ str_int (int j + 1) @ ''.txt'' \<and>
        (\<forall>k<length (snd (files ! j)). \<exists>f w h l corr posX posY gridX gridY.
           find (has_line (int k)) fp = Some f \<and>
           map_of f ''width'' = Some w \<and> map_of f ''height'' = Some h \<and>
           map_of f (feats ! j) = Some l \<and> map_of f ''correlation'' = Some corr \<and>
           map_of f ''posX'' = Some posX \<and> map_of f ''posY'' = Some posY \<and>
           map_of f ''gridX'' = Some gridX \<and> map_of f ''gridY'' = Some gridY \<and>
           snd (files ! j) ! k
             = ''file: '' @ py_str float_str w @ ''_'' @ py_str float_str h @ ''_''
                 @ py_str float_str l @ ''.ome.tif''
               @ ''; corr: '' @ py_str float_str corr
               @ ''; position: ('' @ py_str float_str posX @ '', '' @ py_str float_str posY
               @ ''); grid: ('' @ py_str float_str gridX @ '', '' @ py_str float_str gridY
               @ '');'' @ [CHR 0x0A]) \<and>
        find (has_line (int (length (snd (files ! j))))) fp = None"
    if j: "j < length feats" for j
  proof -
    let ?written = "snd (files ! j)"
    from all j have
      name: "fst (files ! j) = ''img-global-positions-'' @ str_int (int j + 1) @ ''.txt''" and
      run: "write_lines float_str fp (feats ! j) 0 [] = Inr ?written"
      by simp_all
    from write_lines_inv [OF run] have
      each: "\<forall>k<length ?written. \<exists>f. find (has_line (int k)) fp = Some f \<and>
               stitch_line_of float_str f (feats ! j) = Inr (?written ! k)" and
      stop: "find (has_line (int (length ?written))) fp = None"
      by simp_all
    have "\<exists>f w h l corr posX posY gridX gridY.
            find (has_line (int k)) fp = Some f \<and>
            map_of f ''width'' = Some w \<and> map_of f ''height'' = Some h \<and>
            map_of f (feats ! j) = Some l \<and> map_of f ''correlation'' = Some corr \<and>
            map_of f ''posX'' = Some posX \<and> map_of f ''posY'' = Some posY \<and>
            map_of f ''gridX'' = Some gridX \<and> map_of f ''gridY'' = Some gridY \<and>
            ?written ! k
              = ''file: '' @ py_str float_str w @ ''_'' @ py_str float_str h @ ''_''
                  @ py_str float_str l @ ''.ome.tif''
                @ ''; corr: '' @ py_str float_str corr
                @ ''; position: ('' @ py_str float_str posX @ '', '' @ py_str float_str posY
                @ ''); grid: ('' @ py_str float_str gridX @ '', '' @ py_str float_str gridY
                @ '');'' @ [CHR 0x0A]"
      if "k < length ?written" for k
    proof -
      from each that obtain f where
        f: "find (has_line (int k)) fp = Some f" and
        s: "stitch_line_of float_str f (feats ! j) = Inr (?written ! k)"
        by blast
      from stitch_line_of_Inr [OF s] f show ?thesis by blast
    qed
    with name stop show ?thesis by blast
  qed
  with len show ?thesis by blast
qed

theorem output_vector_lines_witness:
  "write_vectors (\<lambda>x. [])
     [[(''file'', PStr ''/in/A.tif''), (''correlation'', PStr ''0.5''), (''posX'', PStr ''0''),
       (''posY'', PStr ''10''), (''gridX'', PStr ''0''), (''gridY'', PStr ''1''),
       (''vector'', PStr ''1''), (''line'', PInt 1), (''width'', PInt 4), (''height'', PInt 3),
       (''area'', PInt 255), (''mass'', PInt 0)],
      [(''file'', PStr ''/in/B.tif''), (''correlation'', PStr ''0.2''), (''posX'', PStr ''5''),
       (''posY'', PStr ''0''), (''gridX'', PStr ''1''), (''gridY'', PStr ''0''),
       (''vector'', PStr ''1''), (''line'', PInt 0), (''width'', PInt 4), (''height'', PInt 3),
       (''area'', PInt 1), (''mass'', PInt 0)]]
     [''area'', ''mass''] 0
   = Inr [(''img-global-positions-1.txt'',
           [''file: 4_3_1.ome.tif; corr: 0.2; position: (5, 0); grid: (1, 0);\<newline>'',
            ''file: 4_3_255.ome.tif; corr: 0.5; position: (0, 10); grid: (0, 1);\<newline>'']),
          (''img-global-positions-2.txt'',
           [''file: 4_3_0.ome.tif; corr: 0.2; position: (5, 0); grid: (1, 0);\<newline>'',
            ''file: 4_3_0.ome.tif; corr: 0.5; position: (0, 10); grid: (0, 1);\<newline>''])] \<and>
   find (has_line 2)
     [[(''file'', PStr ''/in/A.tif''), (''correlation'', PStr ''0.5''), (''posX'', PStr ''0''),
       (''posY'', PStr ''10''), (''gridX'', PStr ''0''), (''gridY'', PStr ''1''),
       (''vector'', PStr ''1''), (''line'', PInt 1), (''width'', PInt 4), (''height'', PInt 3),
       (''area'', PInt 255), (''mass'', PInt 0)],
      [(''file'', PStr ''/in/B.tif''), (''correlation'', PStr ''0.2''), (''posX'', PStr ''5''),
       (''posY'', PStr ''0''), (''gridX'', PStr ''1''), (''gridY'', PStr ''0''),
       (''vector'', PStr ''1''), (''line'', PInt 0), (''width'', PInt 4), (''height'', PInt 3),
       (''area'', PInt 1), (''mass'', PInt 0)]] = None"
proof -
  have run: "write_vectors (\<lambda>x. [])
     [[(''file'', PStr ''/in/A.tif''), (''correlation'', PStr ''0.5''), (''posX'', PStr ''0''),
       (''posY'', PStr ''10''), (''gridX'', PStr ''0''), (''gridY'', PStr ''1''),
       (''vector'', PStr ''1''), (''line'', PInt 1), (''width'', PInt 4), (''height'', PInt 3),
       (''area'', PInt 255), (''mass'', PInt 0)],
      [(''file'', PStr ''/in/B.tif''), (''correlation'', PStr ''0.2''), (''posX'', PStr ''5''),
       (''posY'', PStr ''0''), (''gridX'', PStr ''1''), (''gridY'', PStr ''0''),
       (''vector'', PStr ''1''), (''line'', PInt 0), (''width'', PInt 4), (''height'', PInt 3),
       (''area'', PInt 1), (''mass'', PInt 0)]]
     [''area'', ''mass''] 0
   = Inr [(''img-global-positions-1.txt'',
           [''file: 4_3_1.ome.tif; corr: 0.2; position: (5, 0); grid: (1, 0);\<newline>'',
            ''file: 4_3_255.ome.tif; corr: 0.5; position: (0, 10); grid: (0, 1);\<newline>'']),
          (''img-global-positions-2.txt'',
           [''file: 4_3_0.ome.tif; corr: 0.2; position: (5, 0); grid: (1, 0);\<newline>'',
            ''file: 4_3_0.ome.tif; corr: 0.5; position: (0, 10); grid: (0, 1);\<newline>''])]"
    by code_simp
  from output_vector_lines [OF run] show ?thesis
    using run by (simp add: has_line_def)
qed

lemma has_line_PInt: "map_of f ''line'' = Some (PInt k) \<Longrightarrow> has_line n f \<longleftrightarrow> k = n"
  by (simp add: has_line_def)

text \<open>
  Claim C7, amended. When the writer returns for a feature and the line indices of the
  records are pairwise different integers from 0 to the number of records minus 1 (the
  indices that one stitching vector naming every image of the index once leaves), the
  number of lines written equals the number of records that carry a line index and a value
  for the feature.
\<close>

theorem output_vector_count:
  assumes run: "write_lines float_str fp feat 0 [] = Inr written"
    and idx: "\<forall>f\<in>set fp. \<exists>k. map_of f ''line'' = Some (PInt k) \<and> 0 \<le> k \<and> k < int (length fp)"
    and dist: "distinct (map (\<lambda>f. map_of f ''line'') fp)"
  shows "length written
           = length (filter (\<lambda>f. map_of f ''line'' \<noteq> None \<and> map_of f feat \<noteq> None) fp)"
proof -
  let ?N = "length fp"
  let ?ix = "\<lambda>f. map_of f ''line''"
  from write_lines_inv [OF run] have
    each: "\<forall>k<length written. \<exists>f. find (has_line (int k)) fp = Some f \<and>
             stitch_line_of float_str f feat = Inr (written ! k)" and
    stop: "find (has_line (int (length written))) fp = None"
    by simp_all
  have found: "f \<in> set fp \<and> ?ix f = Some (PInt n)" if "find (has_line n) fp = Some f" for f n
  proof -
    from that have f: "f \<in> set fp" and h: "has_line n f"
      by (auto simp: find_Some_iff)
    from idx f obtain k where "?ix f = Some (PInt k)" by blast
    with h has_line_PInt [OF this, of n] f show ?thesis by simp
  qed
  have sub: "?ix ` set fp \<subseteq> (\<lambda>k. Some (PInt (int k))) ` {..<?N}"
  proof
    fix x
    assume "x \<in> ?ix ` set fp"
    then obtain f where f: "f \<in> set fp" and x: "x = ?ix f" by blast
    from idx f obtain k where k: "?ix f = Some (PInt k)" "0 \<le> k" "k < int ?N" by blast
    then have "nat k < ?N" and "int (nat k) = k" by simp_all
    with x k(1) show "x \<in> (\<lambda>k. Some (PInt (int k))) ` {..<?N}"
      by (metis (no_types, lifting) image_eqI lessThan_iff)
  qed
  have "card (?ix ` set fp) = ?N"
    using dist by (metis distinct_card length_map set_map)
  moreover have "card ((\<lambda>k. Some (PInt (int k))) ` {..<?N}) \<le> ?N"
    by (metis card_image_le card_lessThan finite_lessThan)
  ultimately have all: "?ix ` set fp = (\<lambda>k. Some (PInt (int k))) ` {..<?N}"
    using sub by (simp add: card_seteq)
  have "\<not> length written < ?N"
  proof
    assume "length written < ?N"
    with all obtain f where f: "f \<in> set fp" and "?ix f = Some (PInt (int (length written)))"
      by (metis (no_types, lifting) image_iff lessThan_iff)
    then have "has_line (int (length written)) f" by (simp add: has_line_PInt)
    with f stop show False by (auto simp: find_None_iff)
  qed
  moreover have "\<not> ?N < length written"
  proof
    assume "?N < length written"
    with each obtain f where "find (has_line (int ?N)) fp = Some f" by blast
    from found [OF this] have f: "f \<in> set fp" and "?ix f = Some (PInt (int ?N))" by simp_all
    with idx show False by fastforce
  qed
  ultimately have len: "length written = ?N" by simp
  have "?ix f \<noteq> None \<and> map_of f feat \<noteq> None" if f: "f \<in> set fp" for f
  proof -
    from idx f obtain k where k: "?ix f = Some (PInt k)" "0 \<le> k" "k < int ?N" by blast
    then have "nat k < length written" and kk: "int (nat k) = k" using len by simp_all
    with each obtain g where
      g: "find (has_line k) fp = Some g" and s: "stitch_line_of float_str g feat = Inr (written ! nat k)"
      by (metis (no_types, lifting))
    from found [OF g] k(1) have "g \<in> set fp" and "?ix g = ?ix f" by simp_all
    with dist f have "g = f"
      by (meson distinct_map inj_onD)
    with stitch_line_of_Inr [OF s] k(1) show ?thesis by auto
  qed
  then have "filter (\<lambda>f. ?ix f \<noteq> None \<and> map_of f feat \<noteq> None) fp = fp"
    by (simp add: filter_id_conv)
  with len show ?thesis by simp
qed

section \<open>The whole run (main)\<close>

text \<open>
  The stages of \<open>main\<close> in their order; the result holds the index, the output
  directory of the tiles and the output vectors.
\<close>

definition main_run ::
  "(string \<Rightarrow> int \<times> int) \<Rightarrow> (string \<Rightarrow> pyfloat option)
     \<Rightarrow> (int \<Rightarrow> int \<Rightarrow> int \<Rightarrow> error + pixel_buffer) \<Rightarrow> (pyfloat \<Rightarrow> string)
     \<Rightarrow> (string \<times> string list) list \<Rightarrow> string list list \<Rightarrow> pydict list \<Rightarrow> out_dir
     \<Rightarrow> error + (pydict list \<times> out_dir \<times> (string \<times> string list) list)" where
  "main_run imagesize to_float np_wide float_str stitch_vectors csv_files fp out_images =
     (case parse_stitch imagesize stitch_vectors fp of
        Inl e \<Rightarrow> Inl e
      | Inr (fp1, widths, heights) \<Rightarrow>
     (case parse_features to_float csv_files fp1 of
        Inl e \<Rightarrow> Inl e
      | Inr (fp2, feature_list) \<Rightarrow>
     (case set_feature_scales fp2 feature_list of
        Inl e \<Rightarrow> Inl e
      | Inr (fp3, unique_levels) \<Rightarrow>
     (case generate_images np_wide widths heights unique_levels out_images of
        Inl e \<Rightarrow> Inl e
      | Inr tiles \<Rightarrow>
     (case write_vectors float_str fp3 (map fst feature_list) 0 of
        Inl e \<Rightarrow> Inl e
      | Inr vectors \<Rightarrow> Inr (fp3, tiles, vectors))))))"

text \<open>
  Claim C7, as stated, fails: the line counter restarts at 0 in every stitching vector and
  the writer takes, for each line index, only the first record that carries it. With two
  vectors of one line each, both images match a stitching line and have a value for the
  feature, and the output vector has one line.
\<close>

theorem output_vector_count_counterexample:
  "main_run (\<lambda>p. (4, 3)) dec_float (\<lambda>h w l. Inl OverflowError) (\<lambda>x. [])
     [(''1'', [''file: A.tif; corr: 0.5; position: (0, 10); grid: (0, 1);\<newline>'']),
      (''2'', [''file: B.tif; corr: 0.2; position: (5, 0); grid: (1, 0);\<newline>''])]
     [[''file,area\<newline>'', ''A.tif,10\<newline>'', ''B.tif,20\<newline>'']]
     [[(''file'', PStr ''/in/A.tif'')], [(''file'', PStr ''/in/B.tif'')]] []
   = Inr ([[(''file'', PStr ''/in/A.tif''), (''correlation'', PStr ''0.5''), (''posX'', PStr ''0''),
        (''posY'', PStr ''10''), (''gridX'', PStr ''0''), (''gridY'', PStr ''1''),
        (''vector'', PStr ''1''), (''line'', PInt 0), (''width'', PInt 4), (''height'', PInt 3),
        (''area'', PInt 1)],
       [(''file'', PStr ''/in/B.tif''), (''correlation'', PStr ''0.2''), (''posX'', PStr ''5''),
        (''posY'', PStr ''0''), (''gridX'', PStr ''1''), (''gridY'', PStr ''0''),
        (''vector'', PStr ''2''), (''line'', PInt 0), (''width'', PInt 4), (''height'', PInt 3),
        (''area'', PInt 255)]],
      [(''4_3_255.ome.tif'',
        \<lparr>tile_X = 4, tile_Y = 3,
         tile_pixels = UInt8 [[255, 255, 255, 255], [255, 255, 255, 255], [255, 255, 255, 255]]\<rparr>),
       (''4_3_1.ome.tif'',
        \<lparr>tile_X = 4, tile_Y = 3,
         tile_pixels = UInt8 [[1, 1, 1, 1], [1, 1, 1, 1], [1, 1, 1, 1]]\<rparr>)],
      [(''img-global-positions-1.txt'',
        [''file: 4_3_1.ome.tif; corr: 0.5; position: (0, 10); grid: (0, 1);\<newline>''])]) \<and>
   length [''file: 4_3_1.ome.tif; corr: 0.5; position: (0, 10); grid: (0, 1);\<newline>'']
     \<noteq> length (filter (\<lambda>f. map_of f ''line'' \<noteq> None \<and> map_of f ''area'' \<noteq> None)
         [[(''file'', PStr ''/in/A.tif''), (''correlation'', PStr ''0.5''), (''posX'', PStr ''0''),
        (''posY'', PStr ''10''), (''gridX'', PStr ''0''), (''gridY'', PStr ''1''),
        (''vector'', PStr ''1''), (''line'', PInt 0), (''width'', PInt 4), (''height'', PInt 3),
        (''area'', PInt 1)],
       [(''file'', PStr ''/in/B.tif''), (''correlation'', PStr ''0.2''), (''posX'', PStr ''5''),
        (''posY'', PStr ''0''), (''gridX'', PStr ''1''), (''gridY'', PStr ''0''),
        (''vector'', PStr ''2''), (''line'', PInt 0), (''width'', PInt 4), (''height'', PInt 3),
        (''area'', PInt 255)]])"
  by code_simp

theorem output_vector_count_witness:
  "main_run (\<lambda>p. (4, 3)) dec_float (\<lambda>h w l. Inl OverflowError) (\<lambda>x. [])
     [(''1'', [''file: A.tif; corr: 0.5; position: (0, 10); grid: (0, 1);\<newline>'',
               ''file: B.tif; corr: 0.2; position: (5, 0); grid: (1, 0);\<newline>''])]
     [[''file,area\<newline>'', ''A.tif,10\<newline>'', ''B.tif,20\<newline>'']]
     [[(''file'', PStr ''/in/A.tif'')], [(''file'', PStr ''/in/B.tif'')]] []
   = Inr ([[(''file'', PStr ''/in/A.tif''), (''correlation'', PStr ''0.5''), (''posX'', PStr ''0''),
        (''posY'', PStr ''10''), (''gridX'', PStr ''0''), (''gridY'', PStr ''1''),
        (''vector'', PStr ''1''), (''line'', PInt 0), (''width'', PInt 4), (''height'', PInt 3),
        (''area'', PInt 1)],
       [(''file'', PStr ''/in/B.tif''), (''correlation'', PStr ''0.2''), (''posX'', PStr ''5''),
        (''posY'', PStr ''0''), (''gridX'', PStr ''1''), (''gridY'', PStr ''0''),
        (''vector'', PStr ''1''), (''line'', PInt 1), (''width'', PInt 4), (''height'', PInt 3),
        (''area'', PInt 255)]],
      [(''4_3_255.ome.tif'',
        \<lparr>tile_X = 4, tile_Y = 3,
         tile_pixels = UInt8 [[255, 255, 255, 255], [255, 255, 255, 255], [255, 255, 255, 255]]\<rparr>),
       (''4_3_1.ome.tif'',
        \<lparr>tile_X = 4, tile_Y = 3,
         tile_pixels = UInt8 [[1, 1, 1, 1], [1, 1, 1, 1], [1, 1, 1, 1]]\<rparr>)],
      [(''img-global-positions-1.txt'',
        [''file: 4_3_1.ome.tif; corr: 0.5; position: (0, 10); grid: (0, 1);\<newline>'',
         ''file: 4_3_255.ome.tif; corr: 0.2; position: (5, 0); grid: (1, 0);\<newline>''])]) \<and>
   write_lines (\<lambda>x. [])
      [[(''file'', PStr ''/in/A.tif''), (''correlation'', PStr ''0.5''), (''posX'', PStr ''0''),
        (''posY'', PStr ''10''), (''gridX'', PStr ''0''), (''gridY'', PStr ''1''),
        (''vector'', PStr ''1''), (''line'', PInt 0), (''width'', PInt 4), (''height'', PInt 3),
        (''area'', PInt 1)],
       [(''file'', PStr ''/in/B.tif''), (''correlation'', PStr ''0.2''), (''posX'', PStr ''5''),
        (''posY'', PStr ''0''), (''gridX'', PStr ''1''), (''gridY'', PStr ''0''),
        (''vector'', PStr ''1''), (''line'', PInt 1), (''width'', PInt 4), (''height'', PInt 3),
        (''area'', PInt 255)]]
      ''area'' 0 []
   = Inr [''file: 4_3_1.ome.tif; corr: 0.5; position: (0, 10); grid: (0, 1);\<newline>'',
          ''file: 4_3_255.ome.tif; corr: 0.2; position: (5, 0); grid: (1, 0);\<newline>''] \<and>
   distinct (map (\<lambda>f. map_of f ''line'')
      [[(''file'', PStr ''/in/A.tif''), (''correlation'', PStr ''0.5''), (''posX'', PStr ''0''),
        (''posY'', PStr ''10''), (''gridX'', PStr ''0''), (''gridY'', PStr ''1''),
        (''vector'', PStr ''1''), (''line'', PInt 0), (''width'', PInt 4), (''height'', PInt 3),
        (''area'', PInt 1)],
       [(''file'', PStr ''/in/B.tif''), (''correlation'', PStr ''0.2''), (''posX'', PStr ''5''),
        (''posY'', PStr ''0''), (''gridX'', PStr ''1''), (''gridY'', PStr ''0''),
        (''vector'', PStr ''1''), (''line'', PInt 1), (''width'', PInt 4), (''height'', PInt 3),
        (''area'', PInt 255)]]) \<and>
   length [''file: 4_3_1.ome.tif; corr: 0.5; position: (0, 10); grid: (0, 1);\<newline>'',
           ''file: 4_3_255.ome.tif; corr: 0.2; position: (5, 0); grid: (1, 0);\<newline>'']
     = length (filter (\<lambda>f. map_of f ''line'' \<noteq> None \<and> map_of f ''area'' \<noteq> None)
         [[(''file'', PStr ''/in/A.tif''), (''correlation'', PStr ''0.5''), (''posX'', PStr ''0''),
        (''posY'', PStr ''10''), (''gridX'', PStr ''0''), (''gridY'', PStr ''1''),
        (''vector'', PStr ''1''), (''line'', PInt 0), (''width'', PInt 4), (''height'', PInt 3),
        (''area'', PInt 1)],
       [(''file'', PStr ''/in/B.tif''), (''correlation'', PStr ''0.2''), (''posX'', PStr ''5''),
        (''posY'', PStr ''0''), (''gridX'', PStr ''1''), (''gridY'', PStr ''0''),
        (''vector'', PStr ''1''), (''line'', PInt 1), (''width'', PInt 4), (''height'', PInt 3),
        (''area'', PInt 255)]])"
proof -
  have whole: "main_run (\<lambda>p. (4, 3)) dec_float (\<lambda>h w l. Inl OverflowError) (\<lambda>x. [])
     [(''1'', [''file: A.tif; corr: 0.5; position: (0, 10); grid: (0, 1);\<newline>'',
               ''file: B.tif; corr: 0.2; position: (5, 0); grid: (1, 0);\<newline>''])]
     [[''file,area\<newline>'', ''A.tif,10\<newline>'', ''B.tif,20\<newline>'']]
     [[(''file'', PStr ''/in/A.tif'')], [(''file'', PStr ''/in/B.tif'')]] []
   = Inr ([[(''file'', PStr ''/in/A.tif''), (''correlation'', PStr ''0.5''), (''posX'', PStr ''0''),
        (''posY'', PStr ''10''), (''gridX'', PStr ''0''), (''gridY'', PStr ''1''),
        (''vector'', PStr ''1''), (''line'', PInt 0), (''width'', PInt 4), (''height'', PInt 3),
        (''area'', PInt 1)],
       [(''file'', PStr ''/in/B.tif''), (''correlation'', PStr ''0.2''), (''posX'', PStr ''5''),
        (''posY'', PStr ''0''), (''gridX'', PStr ''1''), (''gridY'', PStr ''0''),
        (''vector'', PStr ''1''), (''line'', PInt 1), (''width'', PInt 4), (''height'', PInt 3),
        (''area'', PInt 255)]],
      [(''4_3_255.ome.tif'',
        \<lparr>tile_X = 4, tile_Y = 3,
         tile_pixels = UInt8 [[255, 255, 255, 255], [255, 255, 255, 255], [255, 255, 255, 255]]\<rparr>),
       (''4_3_1.ome.tif'',
        \<lparr>tile_X = 4, tile_Y = 3,
         tile_pixels = UInt8 [[1, 1, 1, 1], [1, 1, 1, 1], [1, 1, 1, 1]]\<rparr>)],
      [(''img-global-positions-1.txt'',
        [''file: 4_3_1.ome.tif; corr: 0.5; position: (0, 10); grid: (0, 1);\<newline>'',
         ''file: 4_3_255.ome.tif; corr: 0.2; position: (5, 0); grid: (1, 0);\<newline>''])])"
    by code_simp
  have run: "write_lines (\<lambda>x. [])
      [[(''file'', PStr ''/in/A.tif''), (''correlation'', PStr ''0.5''), (''posX'', PStr ''0''),
        (''posY'', PStr ''10''), (''gridX'', PStr ''0''), (''gridY'', PStr ''1''),
        (''vector'', PStr ''1''), (''line'', PInt 0), (''width'', PInt 4), (''height'', PInt 3),
        (''area'', PInt 1)],
       [(''file'', PStr ''/in/B.tif''), (''correlation'', PStr ''0.2''), (''posX'', PStr ''5''),
        (''posY'', PStr ''0''), (''gridX'', PStr ''1''), (''gridY'', PStr ''0''),
        (''vector'', PStr ''1''), (''line'', PInt 1), (''width'', PInt 4), (''height'', PInt 3),
        (''area'', PInt 255)]]
      ''area'' 0 []
   = Inr [''file: 4_3_1.ome.tif; corr: 0.5; position: (0, 10); grid: (0, 1);\<newline>'',
          ''file: 4_3_255.ome.tif; corr: 0.2; position: (5, 0); grid: (1, 0);\<newline>'']"
    by code_simp
  have idx: "\<forall>f\<in>set [[(''file'', PStr ''/in/A.tif''), (''correlation'', PStr ''0.5''), (''posX'', PStr ''0''),
        (''posY'', PStr ''10''), (''gridX'', PStr ''0''), (''gridY'', PStr ''1''),
        (''vector'', PStr ''1''), (''line'', PInt 0), (''width'', PInt 4), (''height'', PInt 3),
        (''area'', PInt 1)],
       [(''file'', PStr ''/in/B.tif''), (''correlation'', PStr ''0.2''), (''posX'', PStr ''5''),
        (''posY'', PStr ''0''), (''gridX'', PStr ''1''), (''gridY'', PStr ''0''),
        (''vector'', PStr ''1''), (''line'', PInt 1), (''width'', PInt 4), (''height'', PInt 3),
        (''area'', PInt 255)]].
      \<exists>k. map_of f ''line'' = Some (PInt k) \<and> 0 \<le> k \<and>
        k < int (length [[(''file'', PStr ''/in/A.tif''), (''correlation'', PStr ''0.5''), (''posX'', PStr ''0''),
        (''posY'', PStr ''10''), (''gridX'', PStr ''0''), (''gridY'', PStr ''1''),
        (''vector'', PStr ''1''), (''line'', PInt 0), (''width'', PInt 4), (''height'', PInt 3),
        (''area'', PInt 1)],
       [(''file'', PStr ''/in/B.tif''), (''correlation'', PStr ''0.2''), (''posX'', PStr ''5''),
        (''posY'', PStr ''0''), (''gridX'', PStr ''1''), (''gridY'', PStr ''0''),
        (''vector'', PStr ''1''), (''line'', PInt 1), (''width'', PInt 4), (''height'', PInt 3),
        (''area'', PInt 255)]])"
    by simp
  have dist: "distinct (map (\<lambda>f. map_of f ''line'')
      [[(''file'', PStr ''/in/A.tif''), (''correlation'', PStr ''0.5''), (''posX'', PStr ''0''),
        (''posY'', PStr ''10''), (''gridX'', PStr ''0''), (''gridY'', PStr ''1''),
        (''vector'', PStr ''1''), (''line'', PInt 0), (''width'', PInt 4), (''height'', PInt 3),
        (''area'', PInt 1)],
       [(''file'', PStr ''/in/B.tif''), (''correlation'', PStr ''0.2''), (''posX'', PStr ''5''),
        (''posY'', PStr ''0''), (''gridX'', PStr ''1''), (''gridY'', PStr ''0''),
        (''vector'', PStr ''1''), (''line'', PInt 1), (''width'', PInt 4), (''height'', PInt 3),
        (''area'', PInt 255)]])"
    by simp
  from output_vector_count [OF run idx dist] show ?thesis
    using whole run dist by simp
qed

text \<open>
  Claim C1, as stated, fails: a record can carry the key of a feature without a mean of
  that feature. The stitch parser stores the image width under the key \<open>width\<close>; with a
  CSV column of that name and no row for \<open>C.tif\<close>, the record of \<open>C.tif\<close> still
  holds the integer 4 there, the collected means are 100 and 200, and the scaling step
  gives the record \<open>round((4 - 100) / 100 * 254 + 1) = -243\<close>, which is neither 0 nor
  between 1 and 255.
\<close>

theorem scaling_levels_counterexample:
  "parse_stitch (\<lambda>p. (4, 3))
     [(''1'', [''file: A.tif; corr: 0.5; position: (0, 10); grid: (0, 1);\<newline>'',
               ''file: B.tif; corr: 0.2; position: (5, 0); grid: (1, 0);\<newline>'',
               ''file: C.tif; corr: 0.1; position: (9, 0); grid: (2, 0);\<newline>''])]
     [[(''file'', PStr ''/in/A.tif'')], [(''file'', PStr ''/in/B.tif'')],
      [(''file'', PStr ''/in/C.tif'')]]
   = Inr ([[(''file'', PStr ''/in/A.tif''), (''correlation'', PStr ''0.5''), (''posX'', PStr ''0''),
           (''posY'', PStr ''10''), (''gridX'', PStr ''0''), (''gridY'', PStr ''1''),
           (''vector'', PStr ''1''), (''line'', PInt 0), (''width'', PInt 4), (''height'', PInt 3)],
          [(''file'', PStr ''/in/B.tif''), (''correlation'', PStr ''0.2''), (''posX'', PStr ''5''),
           (''posY'', PStr ''0''), (''gridX'', PStr ''1''), (''gridY'', PStr ''0''),
           (''vector'', PStr ''1''), (''line'', PInt 1), (''width'', PInt 4), (''height'', PInt 3)],
          [(''file'', PStr ''/in/C.tif''), (''correlation'', PStr ''0.1''), (''posX'', PStr ''9''),
           (''posY'', PStr ''0''), (''gridX'', PStr ''2''), (''gridY'', PStr ''0''),
           (''vector'', PStr ''1''), (''line'', PInt 2), (''width'', PInt 4), (''height'', PInt 3)]], [4], [3]) \<and>
   parse_features dec_float
     [[''file,width\<newline>'', ''A.tif,100\<newline>'', ''B.tif,200\<newline>'']]
     [[(''file'', PStr ''/in/A.tif''), (''correlation'', PStr ''0.5''), (''posX'', PStr ''0''),
           (''posY'', PStr ''10''), (''gridX'', PStr ''0''), (''gridY'', PStr ''1''),
           (''vector'', PStr ''1''), (''line'', PInt 0), (''width'', PInt 4), (''height'', PInt 3)],
          [(''file'', PStr ''/in/B.tif''), (''correlation'', PStr ''0.2''), (''posX'', PStr ''5''),
           (''posY'', PStr ''0''), (''gridX'', PStr ''1''), (''gridY'', PStr ''0''),
           (''vector'', PStr ''1''), (''line'', PInt 1), (''width'', PInt 4), (''height'', PInt 3)],
          [(''file'', PStr ''/in/C.tif''), (''correlation'', PStr ''0.1''), (''posX'', PStr ''9''),
           (''posY'', PStr ''0''), (''gridX'', PStr ''2''), (''gridY'', PStr ''0''),
           (''vector'', PStr ''1''), (''line'', PInt 2), (''width'', PInt 4), (''height'', PInt 3)]]
   = Inr ([[(''file'', PStr ''/in/A.tif''), (''correlation'', PStr ''0.5''), (''posX'', PStr ''0''),
           (''posY'', PStr ''10''), (''gridX'', PStr ''0''), (''gridY'', PStr ''1''),
           (''vector'', PStr ''1''), (''line'', PInt 0), (''width'', PFloat (Fin 100)), (''height'', PInt 3)],
          [(''file'', PStr ''/in/B.tif''), (''correlation'', PStr ''0.2''), (''posX'', PStr ''5''),
           (''posY'', PStr ''0''), (''gridX'', PStr ''1''), (''gridY'', PStr ''0''),
           (''vector'', PStr ''1''), (''line'', PInt 1), (''width'', PFloat (Fin 200)), (''height'', PInt 3)],
          [(''file'', PStr ''/in/C.tif''), (''correlation'', PStr ''0.1''), (''posX'', PStr ''9''),
           (''posY'', PStr ''0''), (''gridX'', PStr ''2''), (''gridY'', PStr ''0''),
           (''vector'', PStr ''1''), (''line'', PInt 2), (''width'', PInt 4), (''height'', PInt 3)]], [(''width'', [Fin 100, Fin 200])]) \<and>
   set_feature_scales
     [[(''file'', PStr ''/in/A.tif''), (''correlation'', PStr ''0.5''), (''posX'', PStr ''0''),
           (''posY'', PStr ''10''), (''gridX'', PStr ''0''), (''gridY'', PStr ''1''),
           (''vector'', PStr ''1''), (''line'', PInt 0), (''width'', PFloat (Fin 100)), (''height'', PInt 3)],
          [(''file'', PStr ''/in/B.tif''), (''correlation'', PStr ''0.2''), (''posX'', PStr ''5''),
           (''posY'', PStr ''0''), (''gridX'', PStr ''1''), (''gridY'', PStr ''0''),
           (''vector'', PStr ''1''), (''line'', PInt 1), (''width'', PFloat (Fin 200)), (''height'', PInt 3)],
          [(''file'', PStr ''/in/C.tif''), (''correlation'', PStr ''0.1''), (''posX'', PStr ''9''),
           (''posY'', PStr ''0''), (''gridX'', PStr ''2''), (''gridY'', PStr ''0''),
           (''vector'', PStr ''1''), (''line'', PInt 2), (''width'', PInt 4), (''height'', PInt 3)]]
     [(''width'', [Fin 100, Fin 200])]
   = Inr ([[(''file'', PStr ''/in/A.tif''), (''correlation'', PStr ''0.5''), (''posX'', PStr ''0''),
           (''posY'', PStr ''10''), (''gridX'', PStr ''0''), (''gridY'', PStr ''1''),
           (''vector'', PStr ''1''), (''line'', PInt 0), (''width'', PInt 1), (''height'', PInt 3)],
          [(''file'', PStr ''/in/B.tif''), (''correlation'', PStr ''0.2''), (''posX'', PStr ''5''),
           (''posY'', PStr ''0''), (''gridX'', PStr ''1''), (''gridY'', PStr ''0''),
           (''vector'', PStr ''1''), (''line'', PInt 1), (''width'', PInt 255), (''height'', PInt 3)],
          [(''file'', PStr ''/in/C.tif''), (''correlation'', PStr ''0.1''), (''posX'', PStr ''9''),
           (''posY'', PStr ''0''), (''gridX'', PStr ''2''), (''gridY'', PStr ''0''),
           (''vector'', PStr ''1''), (''line'', PInt 2), (''width'', PInt (- 243)), (''height'', PInt 3)]], [- 243, 255, 1]) \<and>
   map_of ([[(''file'', PStr ''/in/A.tif''), (''correlation'', PStr ''0.5''), (''posX'', PStr ''0''),
           (''posY'', PStr ''10''), (''gridX'', PStr ''0''), (''gridY'', PStr ''1''),
           (''vector'', PStr ''1''), (''line'', PInt 0), (''width'', PFloat (Fin 100)), (''height'', PInt 3)],
          [(''file'', PStr ''/in/B.tif''), (''correlation'', PStr ''0.2''), (''posX'', PStr ''5''),
           (''posY'', PStr ''0''), (''gridX'', PStr ''1''), (''gridY'', PStr ''0''),
           (''vector'', PStr ''1''), (''line'', PInt 1), (''width'', PFloat (Fin 200)), (''height'', PInt 3)],
          [(''file'', PStr ''/in/C.tif''), (''correlation'', PStr ''0.1''), (''posX'', PStr ''9''),
           (''posY'', PStr ''0''), (''gridX'', PStr ''2''), (''gridY'', PStr ''0''),
           (''vector'', PStr ''1''), (''line'', PInt 2), (''width'', PInt 4), (''height'', PInt 3)]] ! 2) ''width'' = Some (PInt 4) \<and>
   py_min [Fin 100, Fin 200] = Inr (Fin 100) \<and>
   py_max [Fin 100, Fin 200] = Inr (Fin 200) \<and>
   f_sub (Fin 200) (Fin 100) = Fin 100 \<and>
   map_of ([[(''file'', PStr ''/in/A.tif''), (''correlation'', PStr ''0.5''), (''posX'', PStr ''0''),
           (''posY'', PStr ''10''), (''gridX'', PStr ''0''), (''gridY'', PStr ''1''),
           (''vector'', PStr ''1''), (''line'', PInt 0), (''width'', PInt 1), (''height'', PInt 3)],
          [(''file'', PStr ''/in/B.tif''), (''correlation'', PStr ''0.2''), (''posX'', PStr ''5''),
           (''posY'', PStr ''0''), (''gridX'', PStr ''1''), (''gridY'', PStr ''0''),
           (''vector'', PStr ''1''), (''line'', PInt 1), (''width'', PInt 255), (''height'', PInt 3)],
          [(''file'', PStr ''/in/C.tif''), (''correlation'', PStr ''0.1''), (''posX'', PStr ''9''),
           (''posY'', PStr ''0''), (''gridX'', PStr ''2''), (''gridY'', PStr ''0''),
           (''vector'', PStr ''1''), (''line'', PInt 2), (''width'', PInt (- 243)), (''height'', PInt 3)]] ! 2) ''width'' = Some (PInt (- 243)) \<and>
   (- 243 :: int) < 0"
  by code_simp


end
